theory Spec2Isabelle
  imports Main
begin

section \<open>Strings\<close>

text \<open>
  Python strings are sequences of code points. A \<^typ>\<open>char\<close> is read here as one code
  point below 256, so the functions of this section give \<^verbatim>\<open>str.isspace\<close>,
  \<^verbatim>\<open>str.lower\<close> and the regular expression class \<^verbatim>\<open>\w\<close> on that range.
\<close>

definition isspace :: "char \<Rightarrow> bool" where
  "isspace c =
     (let n = (of_char c :: nat)
      in (9 \<le> n \<and> n \<le> 13) \<or> (28 \<le> n \<and> n \<le> 32) \<or> n = 133 \<or> n = 160)"

definition is_upper :: "char \<Rightarrow> bool" where
  "is_upper c =
     (let n = (of_char c :: nat)
      in (65 \<le> n \<and> n \<le> 90) \<or> (192 \<le> n \<and> n \<le> 222 \<and> n \<noteq> 215))"

definition char_lower :: "char \<Rightarrow> char" where
  "char_lower c = (if is_upper c then char_of ((of_char c :: nat) + 32) else c)"

definition lower :: "string \<Rightarrow> string" where
  "lower s = map char_lower s"

definition strip :: "string \<Rightarrow> string" where
  "strip s = rev (dropWhile isspace (rev (dropWhile isspace s)))"

definition startswith :: "string \<Rightarrow> string \<Rightarrow> bool" where
  "startswith s p = (take (length p) s = p)"

text \<open>The backslash, which has no place in a string literal.\<close>

definition backslash :: char where
  "backslash = CHR 0x5C"

section \<open>Dictionaries\<close>

text \<open>
  A Python \<^verbatim>\<open>dict\<close> keeps its items in insertion order and has no duplicate key: it is
  an association list with distinct keys. \<^verbatim>\<open>d[k] = v\<close> replaces the value in place when
  the key is there and appends the item otherwise.
\<close>

type_synonym ('k, 'v) dict = "('k \<times> 'v) list"

definition dict_get :: "('k, 'v) dict \<Rightarrow> 'k \<Rightarrow> 'v option" where
  "dict_get d k = map_of d k"

fun dict_set :: "('k, 'v) dict \<Rightarrow> 'k \<Rightarrow> 'v \<Rightarrow> ('k, 'v) dict" where
  "dict_set [] k v = [(k, v)]"
| "dict_set ((k', v') # d) k v =
     (if k' = k then (k', v) # d else (k', v') # dict_set d k v)"

text \<open>\<^verbatim>\<open>d.update(e)\<close>: the items of \<open>e\<close>, in order, are stored into \<open>d\<close>.\<close>

fun dict_update :: "('k, 'v) dict \<Rightarrow> ('k, 'v) dict \<Rightarrow> ('k, 'v) dict" where
  "dict_update d [] = d"
| "dict_update d ((k, v) # e) = dict_update (dict_set d k v) e"

definition keys :: "('k, 'v) dict \<Rightarrow> 'k list" where
  "keys d = map fst d"

text \<open>
  \<^verbatim>\<open>a == b\<close> on dictionaries: the same number of items, and every key of \<open>a\<close> is a key
  of \<open>b\<close> with an equal value. The order of the items plays no part.
\<close>

definition dict_eq :: "('v \<Rightarrow> 'v \<Rightarrow> bool) \<Rightarrow> ('k, 'v) dict \<Rightarrow> ('k, 'v) dict \<Rightarrow> bool" where
  "dict_eq veq a b =
     (length a = length b \<and>
      list_all (\<lambda>(k, v). case dict_get b k of None \<Rightarrow> False | Some w \<Rightarrow> veq v w) a)"

section \<open>Paths\<close>

text \<open>
  \<^verbatim>\<open>pathlib.Path\<close> on a POSIX host: a root (empty, one slash or two) and the names
  below it. Two paths are equal when both agree, so equality of the record is
  \<^verbatim>\<open>==\<close> of the paths.
\<close>

record Path =
  path_root :: string
  path_names :: "string list"

fun split_sep :: "char \<Rightarrow> string \<Rightarrow> string list" where
  "split_sep sep [] = [[]]"
| "split_sep sep (c # cs) =
     (if c = sep then [] # split_sep sep cs
      else (case split_sep sep cs of
              [] \<Rightarrow> [[c]]
            | w # ws \<Rightarrow> (c # w) # ws))"

definition splitroot :: "string \<Rightarrow> string \<times> string" where
  "splitroot part =
     (if part \<noteq> [] \<and> hd part = CHR ''/'' then
        (let stripped_part = dropWhile (\<lambda>c. c = CHR ''/'') part
         in if length part - length stripped_part = 2 then (''//'', stripped_part)
            else (''/'', stripped_part))
      else ('''', part))"

definition Path_of_str :: "string \<Rightarrow> Path" where
  "Path_of_str s =
     (case splitroot s of
        (r, rel) \<Rightarrow>
          \<lparr>path_root = r,
           path_names = filter (\<lambda>x. x \<noteq> [] \<and> x \<noteq> ''.'') (split_sep (CHR ''/'') rel)\<rparr>)"

fun join_sep :: "string \<Rightarrow> string list \<Rightarrow> string" where
  "join_sep sep [] = []"
| "join_sep sep [x] = x"
| "join_sep sep (x # y # ys) = x @ sep @ join_sep sep (y # ys)"

definition str_of_Path :: "Path \<Rightarrow> string" where
  "str_of_Path p =
     (let s = path_root p @ join_sep ''/'' (path_names p)
      in if s = [] then ''.'' else s)"

definition is_absolute :: "Path \<Rightarrow> bool" where
  "is_absolute p = (path_root p \<noteq> [])"

text \<open>\<^verbatim>\<open>a / b\<close>: a rooted \<open>b\<close> replaces \<open>a\<close>, any other \<open>b\<close> goes below it.\<close>

definition joinpath :: "Path \<Rightarrow> Path \<Rightarrow> Path" where
  "joinpath a b =
     (if path_root b \<noteq> [] then b
      else \<lparr>path_root = path_root a, path_names = path_names a @ path_names b\<rparr>)"

section \<open>Keys\<close>

text \<open>
  \<^verbatim>\<open>DirKey\<close> is a \<^verbatim>\<open>StrEnum\<close>: each member is a string, equal to and hashing as its
  value, so a key-like value is a string and the members are these nine.
\<close>

type_synonym KeyLike = string

definition DirKey_PREFS :: KeyLike where "DirKey_PREFS = ''prefs''"
definition DirKey_CONFIG :: KeyLike where "DirKey_CONFIG = ''config''"
definition DirKey_DATA :: KeyLike where "DirKey_DATA = ''data''"
definition DirKey_CACHE :: KeyLike where "DirKey_CACHE = ''cache''"
definition DirKey_LOGS :: KeyLike where "DirKey_LOGS = ''logs''"
definition DirKey_TEMP :: KeyLike where "DirKey_TEMP = ''temp''"
definition DirKey_SCRIPTS :: KeyLike where "DirKey_SCRIPTS = ''scripts''"
definition DirKey_PLUGINS :: KeyLike where "DirKey_PLUGINS = ''plugins''"
definition DirKey_PACKAGES :: KeyLike where "DirKey_PACKAGES = ''packages''"

text \<open>
  Modelled from the spec: \<^verbatim>\<open>normalize_key\<close>, which \<^verbatim>\<open>config.py\<close> imports from
  \<^verbatim>\<open>keys.py\<close> and \<^verbatim>\<open>keys.py\<close> does not define. The spec: a key-like value is
  normalized by trimming and case-folding, and a well-known key normalizes to its
  string value.
\<close>

definition normalize_key :: "KeyLike \<Rightarrow> KeyLike" where
  "normalize_key k = lower (strip k)"

section \<open>Errors\<close>

datatype error =
  VFXDirsConfigError string
| RuntimeError string
| OSError
| UnicodeDecodeError
| TOMLDecodeError
| TypeError

definition normalize_app_id :: "string \<Rightarrow> error + string" where
  "normalize_app_id app_id =
     (let raw = lower (strip app_id)
      in if raw = [] then Inl (VFXDirsConfigError ''app_id cannot be empty'') else Inr raw)"

section \<open>The configuration model\<close>

record InstallOverride =
  root :: "Path option"
  executable :: "Path option"

definition InstallOverride_merged :: "InstallOverride \<Rightarrow> InstallOverride \<Rightarrow> InstallOverride" where
  "InstallOverride_merged self higher =
     \<lparr>root = (if root higher \<noteq> None then root higher else root self),
      executable = (if executable higher \<noteq> None then executable higher else executable self)\<rparr>"

record AppConfig =
  base :: "Path option"
  install :: InstallOverride
  paths :: "(KeyLike, Path) dict"

text \<open>The loop of \<^verbatim>\<open>AppConfig.__post_init__\<close> over the items of the given mapping.\<close>

fun normalize_paths :: "(KeyLike, Path) dict \<Rightarrow> (KeyLike, Path) dict \<Rightarrow> (KeyLike, Path) dict" where
  "normalize_paths normalized [] = normalized"
| "normalize_paths normalized ((k, v) # rest) =
     normalize_paths (dict_set normalized (normalize_key k) v) rest"

definition AppConfig_init :: "Path option \<Rightarrow> InstallOverride \<Rightarrow> (KeyLike, Path) dict \<Rightarrow> AppConfig" where
  "AppConfig_init b i p = \<lparr>base = b, install = i, paths = normalize_paths [] p\<rparr>"

definition AppConfig_path_override :: "AppConfig \<Rightarrow> KeyLike \<Rightarrow> Path option" where
  "AppConfig_path_override self key = dict_get (paths self) (normalize_key key)"

definition AppConfig_merged :: "AppConfig \<Rightarrow> AppConfig \<Rightarrow> AppConfig" where
  "AppConfig_merged self higher =
     (let merged_paths = dict_update (paths self) (paths higher)
      in AppConfig_init
           (if base higher \<noteq> None then base higher else base self)
           (InstallOverride_merged (install self) (install higher))
           merged_paths)"

record VFXDirsConfig =
  apps :: "(string, AppConfig) dict"

text \<open>The loop of \<^verbatim>\<open>VFXDirsConfig.__post_init__\<close>, which an empty identifier aborts.\<close>

fun normalize_apps ::
  "(string, AppConfig) dict \<Rightarrow> (string, AppConfig) dict \<Rightarrow> error + (string, AppConfig) dict" where
  "normalize_apps normalized [] = Inr normalized"
| "normalize_apps normalized ((app_id, cfg) # rest) =
     (case normalize_app_id app_id of
        Inl e \<Rightarrow> Inl e
      | Inr norm_id \<Rightarrow> normalize_apps (dict_set normalized norm_id cfg) rest)"

definition VFXDirsConfig_init :: "(string, AppConfig) dict \<Rightarrow> error + VFXDirsConfig" where
  "VFXDirsConfig_init a =
     (case normalize_apps [] a of Inl e \<Rightarrow> Inl e | Inr normalized \<Rightarrow> Inr \<lparr>apps = normalized\<rparr>)"

definition VFXDirsConfig_app :: "VFXDirsConfig \<Rightarrow> string \<Rightarrow> error + AppConfig option" where
  "VFXDirsConfig_app self app_id =
     (case normalize_app_id app_id of
        Inl e \<Rightarrow> Inl e
      | Inr n \<Rightarrow> Inr (dict_get (apps self) n))"

definition VFXDirsConfig_path_override ::
  "VFXDirsConfig \<Rightarrow> string \<Rightarrow> KeyLike \<Rightarrow> error + Path option" where
  "VFXDirsConfig_path_override self app_id key =
     (case VFXDirsConfig_app self app_id of
        Inl e \<Rightarrow> Inl e
      | Inr None \<Rightarrow> Inr None
      | Inr (Some app_cfg) \<Rightarrow> Inr (AppConfig_path_override app_cfg key))"

text \<open>The loop of \<^verbatim>\<open>VFXDirsConfig.merged\<close> over the items of \<^verbatim>\<open>higher.apps\<close>.\<close>

fun merge_apps ::
  "(string, AppConfig) dict \<Rightarrow> (string, AppConfig) dict \<Rightarrow> (string, AppConfig) dict" where
  "merge_apps merged_apps [] = merged_apps"
| "merge_apps merged_apps ((app_id, higher_app) # rest) =
     merge_apps
       (dict_set merged_apps app_id
          (case dict_get merged_apps app_id of
             None \<Rightarrow> higher_app
           | Some lower_app \<Rightarrow> AppConfig_merged lower_app higher_app))
       rest"

definition VFXDirsConfig_merged :: "VFXDirsConfig \<Rightarrow> VFXDirsConfig option \<Rightarrow> error + VFXDirsConfig" where
  "VFXDirsConfig_merged self higher =
     (case higher of
        None \<Rightarrow> Inr self
      | Some h \<Rightarrow> VFXDirsConfig_init (merge_apps (apps self) (apps h)))"

text \<open>\<^verbatim>\<open>==\<close> of the two dataclasses: field by field, the mappings as dictionaries.\<close>

definition AppConfig_eq :: "AppConfig \<Rightarrow> AppConfig \<Rightarrow> bool" where
  "AppConfig_eq a b =
     (base a = base b \<and> install a = install b \<and> dict_eq (=) (paths a) (paths b))"

definition VFXDirsConfig_eq :: "VFXDirsConfig \<Rightarrow> VFXDirsConfig \<Rightarrow> bool" where
  "VFXDirsConfig_eq a b = dict_eq AppConfig_eq (apps a) (apps b)"

text \<open>
  What the two constructors establish: distinct, normalized keys. Every instance comes
  out of its constructor, so these hold of every configuration a caller can have.
\<close>

definition inv_AppConfig :: "AppConfig \<Rightarrow> bool" where
  "inv_AppConfig a =
     (distinct (keys (paths a)) \<and> list_all (\<lambda>k. normalize_key k = k) (keys (paths a)))"

definition inv_VFXDirsConfig :: "VFXDirsConfig \<Rightarrow> bool" where
  "inv_VFXDirsConfig c =
     (distinct (keys (apps c)) \<and>
      list_all (\<lambda>k. normalize_app_id k = Inr k) (keys (apps c)) \<and>
      list_all inv_AppConfig (map snd (apps c)))"


section \<open>Path expansion\<close>

text \<open>The class \<^verbatim>\<open>\w\<close> of a \<^verbatim>\<open>str\<close> pattern: alphanumeric code points and the underscore.\<close>

definition is_word_char :: "char \<Rightarrow> bool" where
  "is_word_char c =
     (let n = (of_char c :: nat)
      in (48 \<le> n \<and> n \<le> 57) \<or> (65 \<le> n \<and> n \<le> 90) \<or> n = 95 \<or> (97 \<le> n \<and> n \<le> 122) \<or>
         n = 170 \<or> n = 178 \<or> n = 179 \<or> n = 181 \<or> n = 185 \<or> n = 186 \<or>
         (188 \<le> n \<and> n \<le> 190) \<or> (192 \<le> n \<and> n \<le> 214) \<or> (216 \<le> n \<and> n \<le> 246) \<or>
         (248 \<le> n \<and> n \<le> 255))"

text \<open>
  One attempt of \<^verbatim>\<open>\$(\w+)|\$\{([^}]+)\}\<close> at the head of a text: the whole match, the
  variable (group 1 or group 2) and the text after the match. The first alternative
  takes the longest run of word characters; the second takes everything up to the first
  closing brace, and needs that brace.
\<close>

definition match_env_var :: "string \<Rightarrow> (string \<times> string \<times> string) option" where
  "match_env_var s =
     (case s of
        [] \<Rightarrow> None
      | c # t \<Rightarrow>
          if c \<noteq> CHR ''$'' then None
          else if takeWhile is_word_char t \<noteq> [] then
            Some (c # takeWhile is_word_char t, takeWhile is_word_char t, dropWhile is_word_char t)
          else
            (case t of
               [] \<Rightarrow> None
             | b # u \<Rightarrow>
                 if b = CHR ''{'' \<and> takeWhile (\<lambda>x. x \<noteq> CHR ''}'') u \<noteq> [] \<and>
                    dropWhile (\<lambda>x. x \<noteq> CHR ''}'') u \<noteq> []
                 then Some (c # b # takeWhile (\<lambda>x. x \<noteq> CHR ''}'') u @ ''}'',
                            takeWhile (\<lambda>x. x \<noteq> CHR ''}'') u,
                            tl (dropWhile (\<lambda>x. x \<noteq> CHR ''}'') u))
                 else None))"

text \<open>The replacement function \<^verbatim>\<open>repl\<close> of \<^verbatim>\<open>_expand_env_vars\<close>.\<close>

definition repl :: "(string, string) dict \<Rightarrow> string \<Rightarrow> string \<Rightarrow> string" where
  "repl env_map group0 var =
     (if var = [] then group0
      else (case dict_get env_map var of None \<Rightarrow> group0 | Some v \<Rightarrow> v))"

text \<open>
  \<^verbatim>\<open>_ENV_VAR_PATTERN.sub(repl, value)\<close>: the matches are found from left to right, none
  overlapping another, and the text between them is kept.
\<close>

function expand_env_vars :: "string \<Rightarrow> (string, string) dict \<Rightarrow> string" where
  "expand_env_vars [] env_map = []"
| "expand_env_vars (c # t) env_map =
     (case match_env_var (c # t) of
        None \<Rightarrow> c # expand_env_vars t env_map
      | Some (group0, var, rest) \<Rightarrow> repl env_map group0 var @ expand_env_vars rest env_map)"
  by pat_completeness auto
termination
proof (relation "measure (\<lambda>(s, e). length s)")
  show "wf (measure (\<lambda>(s, e). length s))"
    by simp
next
  fix c :: char and t :: string and env_map :: "(string, string) dict"
  show "((t, env_map), c # t, env_map) \<in> measure (\<lambda>(s, e). length s)"
    by simp
next
  fix c :: char and t :: string and env_map :: "(string, string) dict"
    and x2 :: "string \<times> string \<times> string" and group0 :: string
    and y :: "string \<times> string" and var :: string and rest :: string
  assume m: "match_env_var (c # t) = Some x2" and x: "(group0, y) = x2" and y: "(var, rest) = y"
  have w: "length (dropWhile is_word_char t) \<le> length t"
    by (rule length_dropWhile_le)
  have b: "\<And>u. length (tl (dropWhile (\<lambda>x. x \<noteq> CHR ''}'') u)) \<le> length u"
  proof -
    fix u :: string
    have "length (tl (dropWhile (\<lambda>x. x \<noteq> CHR ''}'') u)) \<le> length (dropWhile (\<lambda>x. x \<noteq> CHR ''}'') u)"
      by simp
    also have "\<dots> \<le> length u"
      by (rule length_dropWhile_le)
    finally show "length (tl (dropWhile (\<lambda>x. x \<noteq> CHR ''}'') u)) \<le> length u" .
  qed
  from m x y have "length rest \<le> length t"
    using w b by (auto simp: match_env_var_def le_SucI split: if_splits list.splits)
  then show "((rest, env_map), c # t, env_map) \<in> measure (\<lambda>(s, e). length s)"
    by simp
qed

definition expand_user :: "string \<Rightarrow> Path \<Rightarrow> string" where
  "expand_user val home_dir =
     (if val = ''~'' then str_of_Path home_dir
      else if startswith val ''~/'' \<or> startswith val [CHR ''~'', backslash]
        then str_of_Path home_dir @ drop 1 val
      else val)"

section \<open>Raw configuration values\<close>

text \<open>
  What a parsed TOML or JSON document holds. The parser looks at a value in five ways:
  is it \<^verbatim>\<open>None\<close>, is it a string, is it a mapping, is it true in a condition, and what is
  the name of its type. \<open>POther\<close> stands for a value of any further type (a float, a
  date), known by that name and that truth value.
\<close>

datatype pyval =
  PNone
| PBool bool
| PInt int
| PStr string
| PList "pyval list"
| PTable "(string \<times> pyval) list"
| POther string bool

fun truthy :: "pyval \<Rightarrow> bool" where
  "truthy PNone = False"
| "truthy (PBool b) = b"
| "truthy (PInt i) = (i \<noteq> 0)"
| "truthy (PStr s) = (s \<noteq> [])"
| "truthy (PList l) = (l \<noteq> [])"
| "truthy (PTable t) = (t \<noteq> [])"
| "truthy (POther n b) = b"

fun type_name :: "pyval \<Rightarrow> string" where
  "type_name PNone = ''NoneType''"
| "type_name (PBool b) = ''bool''"
| "type_name (PInt i) = ''int''"
| "type_name (PStr s) = ''str''"
| "type_name (PList l) = ''list''"
| "type_name (PTable t) = ''dict''"
| "type_name (POther n b) = n"

fun is_Mapping :: "pyval \<Rightarrow> bool" where
  "is_Mapping (PTable t) = True"
| "is_Mapping v = False"

definition parse_path ::
  "pyval \<Rightarrow> (string, string) dict \<Rightarrow> Path \<Rightarrow> Path \<Rightarrow> string \<Rightarrow> error + Path" where
  "parse_path raw env_map home_dir base_dir wh =
     (case raw of
        PStr s \<Rightarrow>
          (let raw_str = strip s
           in if raw_str = [] then Inl (VFXDirsConfigError (wh @ '' cannot be an empty path''))
              else
                (let expanded = expand_user raw_str home_dir;
                     expanded = expand_env_vars expanded env_map;
                     p = Path_of_str expanded
                 in if \<not> is_absolute p then Inr (joinpath base_dir p) else Inr p))
      | _ \<Rightarrow>
          Inl (VFXDirsConfigError (wh @ '' must be a string path but got '' @ type_name raw)))"

section \<open>The context\<close>

datatype OSName = windows | macos | linux

record Context =
  os :: OSName
  env :: "(string, string) dict"
  home :: Path
  cwd :: Path
  temp_dir :: Path
  config_home :: Path
  data_home :: Path
  cache_home :: Path
  install_roots :: "Path list"

text \<open>
  What \<^verbatim>\<open>Context.from_env\<close> reads of the running process: \<^verbatim>\<open>sys.platform\<close>,
  \<^verbatim>\<open>os.environ\<close>, \<^verbatim>\<open>Path.home()\<close>, \<^verbatim>\<open>Path.cwd()\<close> and \<^verbatim>\<open>tempfile.gettempdir()\<close>. The
  last three raise when the process has no such directory, which is \<open>None\<close> here.
\<close>

record Host =
  sys_platform :: string
  os_environ :: "(string, string) dict"
  Path_home :: "Path option"
  Path_cwd :: "Path option"
  gettempdir :: "string option"

text \<open>
  \<^verbatim>\<open>repr\<close> of a string, which \<^verbatim>\<open>!r\<close> puts into the message below: the string in single
  quotes, or in double quotes when it holds a single quote and no double quote; the
  quote in use and the backslash are escaped, tab, newline and return are written
  \<^verbatim>\<open>\t\<close>, \<^verbatim>\<open>\n\<close>, \<^verbatim>\<open>\r\<close>, and every other code point that does not print is written
  \<^verbatim>\<open>\xhh\<close>.
\<close>

definition hex_digit :: "nat \<Rightarrow> char" where
  "hex_digit n = (if n < 10 then char_of (48 + n) else char_of (87 + n))"

definition is_printable :: "char \<Rightarrow> bool" where
  "is_printable c =
     (let n = (of_char c :: nat)
      in (32 \<le> n \<and> n < 127) \<or> (161 \<le> n \<and> n \<noteq> 173))"

definition repr_char :: "char \<Rightarrow> char \<Rightarrow> string" where
  "repr_char quote c =
     (if c = quote \<or> c = backslash then [backslash, c]
      else if c = CHR 0x09 then [backslash, CHR ''t'']
      else if c = CHR 0x0A then [backslash, CHR ''n'']
      else if c = CHR 0x0D then [backslash, CHR ''r'']
      else if is_printable c then [c]
      else [backslash, CHR ''x'', hex_digit ((of_char c :: nat) div 16),
            hex_digit ((of_char c :: nat) mod 16)])"

definition repr_str :: "string \<Rightarrow> string" where
  "repr_str s =
     (let quote = (if CHR 0x27 \<in> set s \<and> CHR 0x22 \<notin> set s then CHR 0x22 else CHR 0x27)
      in quote # concat (map (repr_char quote) s) @ [quote])"

definition detect_os_name :: "Host \<Rightarrow> error + OSName" where
  "detect_os_name host =
     (if startswith (sys_platform host) ''win'' then Inr windows
      else if sys_platform host = ''darwin'' then Inr macos
      else if startswith (sys_platform host) ''linux'' then Inr linux
      else Inl (RuntimeError (''Unsupported platform: '' @ repr_str (sys_platform host))))"

definition home_from_env :: "Host \<Rightarrow> OSName \<Rightarrow> (string, string) dict \<Rightarrow> error + Path" where
  "home_from_env host os_name env_map =
     (let val = (if os_name = windows then dict_get env_map ''USERPROFILE''
                 else dict_get env_map ''HOME'')
      in case val of
           Some v \<Rightarrow>
             if v \<noteq> [] then Inr (Path_of_str v)
             else (case Path_home host of
                     None \<Rightarrow> Inl (RuntimeError ''Could not determine home directory.'')
                   | Some h \<Rightarrow> Inr h)
         | None \<Rightarrow>
             (case Path_home host of
                None \<Rightarrow> Inl (RuntimeError ''Could not determine home directory.'')
              | Some h \<Rightarrow> Inr h))"

text \<open>\<^verbatim>\<open>Path(env_map.get(name, default))\<close>, the default being a path already.\<close>

definition env_path_or :: "(string, string) dict \<Rightarrow> string \<Rightarrow> Path \<Rightarrow> Path" where
  "env_path_or env_map name dflt =
     (case dict_get env_map name of None \<Rightarrow> dflt | Some v \<Rightarrow> Path_of_str v)"

text \<open>The loop over the three program-files variables of the Windows branch.\<close>

fun program_roots :: "(string, string) dict \<Rightarrow> Path list \<Rightarrow> string list \<Rightarrow> Path list" where
  "program_roots env_map roots [] = roots"
| "program_roots env_map roots (key # rest) =
     (case dict_get env_map key of
        None \<Rightarrow> program_roots env_map roots rest
      | Some v \<Rightarrow>
          if v \<noteq> [] then program_roots env_map (roots @ [Path_of_str v]) rest
          else program_roots env_map roots rest)"

definition Context_from_env ::
  "Host \<Rightarrow> (string, string) dict option \<Rightarrow> OSName option \<Rightarrow> Path option \<Rightarrow> Path option \<Rightarrow>
   error + Context" where
  "Context_from_env host env_arg os_name home_arg cwd_arg =
     (let env_map = (case env_arg of None \<Rightarrow> os_environ host | Some e \<Rightarrow> e)
      in case (case os_name of Some n \<Rightarrow> Inr n | None \<Rightarrow> detect_os_name host) of
           Inl e \<Rightarrow> Inl e
         | Inr detected_os \<Rightarrow>
      (case (case home_arg of Some h \<Rightarrow> Inr h | None \<Rightarrow> home_from_env host detected_os env_map) of
           Inl e \<Rightarrow> Inl e
         | Inr resolved_home \<Rightarrow>
      (case (case cwd_arg of Some c \<Rightarrow> Some c | None \<Rightarrow> Path_cwd host) of
           None \<Rightarrow> Inl OSError
         | Some resolved_cwd \<Rightarrow>
      (case gettempdir host of
           None \<Rightarrow> Inl OSError
         | Some tmp \<Rightarrow>
      (if detected_os = linux then
         Inr \<lparr>os = detected_os, env = env_map, home = resolved_home, cwd = resolved_cwd,
              temp_dir = Path_of_str tmp,
              config_home =
                env_path_or env_map ''XDG_CONFIG_HOME''
                  (joinpath resolved_home (Path_of_str ''.config'')),
              data_home =
                env_path_or env_map ''XDG_DATA_HOME''
                  (joinpath (joinpath resolved_home (Path_of_str ''.local'')) (Path_of_str ''share'')),
              cache_home =
                env_path_or env_map ''XDG_CACHE_HOME''
                  (joinpath resolved_home (Path_of_str ''.cache'')),
              install_roots =
                [Path_of_str ''/opt'', Path_of_str ''/usr/local'', Path_of_str ''/usr'']\<rparr>
       else if detected_os = macos then
         (let library = joinpath resolved_home (Path_of_str ''Library'')
          in Inr \<lparr>os = detected_os, env = env_map, home = resolved_home, cwd = resolved_cwd,
                  temp_dir = Path_of_str tmp,
                  config_home = joinpath library (Path_of_str ''Application Support''),
                  data_home = joinpath library (Path_of_str ''Application Support''),
                  cache_home = joinpath library (Path_of_str ''Caches''),
                  install_roots =
                    [Path_of_str ''/Applications'', Path_of_str ''/Applications/Utilities'']\<rparr>)
       else
         (let appdata = dict_get env_map ''APPDATA'';
              localappdata = dict_get env_map ''LOCALAPPDATA'';
              config_home' =
                (case appdata of
                   None \<Rightarrow> joinpath (joinpath resolved_home (Path_of_str ''AppData''))
                             (Path_of_str ''Roaming'')
                 | Some a \<Rightarrow>
                     if a \<noteq> [] then Path_of_str a
                     else joinpath (joinpath resolved_home (Path_of_str ''AppData''))
                            (Path_of_str ''Roaming''));
              cache_home' =
                (case localappdata of
                   None \<Rightarrow> joinpath (joinpath resolved_home (Path_of_str ''AppData''))
                             (Path_of_str ''Local'')
                 | Some a \<Rightarrow>
                     if a \<noteq> [] then Path_of_str a
                     else joinpath (joinpath resolved_home (Path_of_str ''AppData''))
                            (Path_of_str ''Local''));
              roots =
                program_roots env_map []
                  [''ProgramFiles'', ''ProgramW6432'', ''ProgramFiles(x86)'']
          in Inr \<lparr>os = detected_os, env = env_map, home = resolved_home, cwd = resolved_cwd,
                  temp_dir = Path_of_str tmp,
                  config_home = config_home',
                  data_home = config_home',
                  cache_home = cache_home',
                  install_roots =
                    (if roots \<noteq> [] then roots else [Path_of_str ''C:/Program Files''])\<rparr>))))))"

section \<open>Parsing a configuration\<close>

text \<open>
  \<^verbatim>\<open>from_mapping\<close> reads three optional paths the same way: the key is in the table and
  its value is not \<^verbatim>\<open>None\<close>, then \<^verbatim>\<open>_parse_path\<close>; otherwise no path.
\<close>

definition optional_path ::
  "(string, pyval) dict \<Rightarrow> string \<Rightarrow> (string, string) dict \<Rightarrow> Path \<Rightarrow> Path \<Rightarrow> string \<Rightarrow>
   error + Path option" where
  "optional_path tbl key env_map home_dir base_dir wh =
     (case dict_get tbl key of
        None \<Rightarrow> Inr None
      | Some v \<Rightarrow>
          if v = PNone then Inr None
          else (case parse_path v env_map home_dir base_dir wh of
                  Inl e \<Rightarrow> Inl e
                | Inr p \<Rightarrow> Inr (Some p)))"

text \<open>\<^verbatim>\<open>tbl.get(key, {}) or {}\<close>: an absent key and a value that is not true give \<^verbatim>\<open>{}\<close>.\<close>

definition get_or_empty :: "(string, pyval) dict \<Rightarrow> string \<Rightarrow> pyval" where
  "get_or_empty tbl key =
     (case dict_get tbl key of
        None \<Rightarrow> PTable []
      | Some v \<Rightarrow> if truthy v then v else PTable [])"

text \<open>The loop over the items of the \<^verbatim>\<open>paths\<close> table.\<close>

fun parse_paths ::
  "(string, string) dict \<Rightarrow> Path \<Rightarrow> Path \<Rightarrow> string \<Rightarrow> (KeyLike, Path) dict \<Rightarrow>
   (string, pyval) dict \<Rightarrow> error + (KeyLike, Path) dict" where
  "parse_paths env_map home_dir base_dir app_id ps [] = Inr ps"
| "parse_paths env_map home_dir base_dir app_id ps ((raw_key, raw_value) # rest) =
     (case parse_path raw_value env_map home_dir base_dir
             (''apps.'' @ app_id @ ''.paths.'' @ raw_key) of
        Inl e \<Rightarrow> Inl e
      | Inr p \<Rightarrow>
          parse_paths env_map home_dir base_dir app_id
            (dict_set ps (normalize_key raw_key) p) rest)"

text \<open>The body of the loop over the items of the \<^verbatim>\<open>apps\<close> table.\<close>

definition parse_app ::
  "Context \<Rightarrow> (string, string) dict \<Rightarrow> Path \<Rightarrow> string \<Rightarrow> pyval \<Rightarrow> error + string \<times> AppConfig" where
  "parse_app ctx env_map base_dir raw_app_id raw_app_tbl =
     (case normalize_app_id raw_app_id of
        Inl e \<Rightarrow> Inl e
      | Inr app_id \<Rightarrow>
     (case raw_app_tbl of
        PTable tbl \<Rightarrow>
     (case optional_path tbl ''base'' env_map (home ctx) base_dir
             (''apps.'' @ app_id @ ''.base'') of
        Inl e \<Rightarrow> Inl e
      | Inr b \<Rightarrow>
     (case get_or_empty tbl ''install'' of
        PTable install_tbl \<Rightarrow>
     (case optional_path install_tbl ''root'' env_map (home ctx) base_dir
             (''apps.'' @ app_id @ ''.install.root'') of
        Inl e \<Rightarrow> Inl e
      | Inr install_root \<Rightarrow>
     (case optional_path install_tbl ''executable'' env_map (home ctx) base_dir
             (''apps.'' @ app_id @ ''.install.executable'') of
        Inl e \<Rightarrow> Inl e
      | Inr install_exe \<Rightarrow>
     (case get_or_empty tbl ''paths'' of
        PTable paths_tbl \<Rightarrow>
     (case parse_paths env_map (home ctx) base_dir app_id [] paths_tbl of
        Inl e \<Rightarrow> Inl e
      | Inr ps \<Rightarrow>
          Inr (app_id,
               AppConfig_init b \<lparr>root = install_root, executable = install_exe\<rparr> ps))
      | _ \<Rightarrow>
          Inl (VFXDirsConfigError
                 (''`apps.'' @ app_id @ ''.paths` must be a TOML table or object'')))))
      | _ \<Rightarrow>
          Inl (VFXDirsConfigError
                 (''`apps.'' @ app_id @ ''.install` must be a TOML table or object''))))
      | _ \<Rightarrow>
          Inl (VFXDirsConfigError (''`apps.'' @ app_id @ ''` must be a TOML table or object''))))"

fun parse_apps ::
  "Context \<Rightarrow> (string, string) dict \<Rightarrow> Path \<Rightarrow> (string, AppConfig) dict \<Rightarrow> (string, pyval) dict \<Rightarrow>
   error + (string, AppConfig) dict" where
  "parse_apps ctx env_map base_dir as [] = Inr as"
| "parse_apps ctx env_map base_dir as ((raw_app_id, raw_app_tbl) # rest) =
     (case parse_app ctx env_map base_dir raw_app_id raw_app_tbl of
        Inl e \<Rightarrow> Inl e
      | Inr (app_id, cfg) \<Rightarrow> parse_apps ctx env_map base_dir (dict_set as app_id cfg) rest)"

definition from_mapping ::
  "Host \<Rightarrow> pyval \<Rightarrow> Path \<Rightarrow> (string, string) dict option \<Rightarrow> Context option \<Rightarrow>
   error + VFXDirsConfig" where
  "from_mapping host data base_dir env_arg context =
     (case data of
        PTable root_tbl \<Rightarrow>
     (case (case context of
              Some c \<Rightarrow> Inr c
            | None \<Rightarrow> Context_from_env host env_arg None None None) of
        Inl e \<Rightarrow> Inl e
      | Inr ctx \<Rightarrow>
          (let env_map = (case env_arg of None \<Rightarrow> env ctx | Some e \<Rightarrow> e);
               raw_apps = (case dict_get root_tbl ''apps'' of None \<Rightarrow> PTable [] | Some v \<Rightarrow> v);
               raw_apps = (if raw_apps = PNone then PTable [] else raw_apps)
           in case raw_apps of
                PTable items \<Rightarrow>
                  (case parse_apps ctx env_map base_dir [] items of
                     Inl e \<Rightarrow> Inl e
                   | Inr as \<Rightarrow> VFXDirsConfig_init as)
              | _ \<Rightarrow> Inl (VFXDirsConfigError ''`apps` must be a TOML table or object'')))
      | _ \<Rightarrow> Inl (VFXDirsConfigError ''Config root must be a TOML table or object''))"

section \<open>Loading a file\<close>

text \<open>
  What the file system holds at a path: nothing (\<^verbatim>\<open>exists()\<close> is false), something that
  \<^verbatim>\<open>exists()\<close> cannot look at or \<^verbatim>\<open>read_text\<close> cannot read (both raise \<^verbatim>\<open>OSError\<close>), bytes
  that are not UTF-8, or a text. \<^verbatim>\<open>tomllib.loads\<close> is a parameter: it returns a table or
  raises, which is \<open>None\<close> here.
\<close>

datatype file_state = Missing | Inaccessible | Unreadable | Undecodable | Contents string

text \<open>\<^verbatim>\<open>Path.parent\<close>: the path without its last name.\<close>

definition Path_parent :: "Path \<Rightarrow> Path" where
  "Path_parent p = \<lparr>path_root = path_root p, path_names = butlast (path_names p)\<rparr>"

definition from_file ::
  "Host \<Rightarrow> (Path \<Rightarrow> file_state) \<Rightarrow> (string \<Rightarrow> pyval option) \<Rightarrow> Path \<Rightarrow>
   (string, string) dict option \<Rightarrow> Context option \<Rightarrow> error + VFXDirsConfig" where
  "from_file host fs toml_loads config_path env_arg context =
     (case fs config_path of
        Missing \<Rightarrow> Inl OSError
      | Inaccessible \<Rightarrow> Inl OSError
      | Unreadable \<Rightarrow> Inl OSError
      | Undecodable \<Rightarrow> Inl UnicodeDecodeError
      | Contents text \<Rightarrow>
          (case toml_loads text of
             None \<Rightarrow> Inl TOMLDecodeError
           | Some data \<Rightarrow> from_mapping host data (Path_parent config_path) env_arg context))"

definition load ::
  "Host \<Rightarrow> (Path \<Rightarrow> file_state) \<Rightarrow> (string \<Rightarrow> pyval option) \<Rightarrow> Path \<Rightarrow>
   (string, string) dict option \<Rightarrow> Context option \<Rightarrow> error + VFXDirsConfig option" where
  "load host fs toml_loads config_path env_arg context =
     (if fs config_path = Inaccessible then Inl OSError
      else if fs config_path = Missing then Inr None
      else (case from_file host fs toml_loads config_path env_arg context of
              Inl e \<Rightarrow> Inl e
            | Inr c \<Rightarrow> Inr (Some c)))"

definition default_config_path :: "Context \<Rightarrow> Path" where
  "default_config_path ctx =
     joinpath (joinpath (config_home ctx) (Path_of_str ''vfxdirs'')) (Path_of_str ''config.toml'')"

definition load_default ::
  "Host \<Rightarrow> (Path \<Rightarrow> file_state) \<Rightarrow> (string \<Rightarrow> pyval option) \<Rightarrow> Context \<Rightarrow>
   (string, string) dict option \<Rightarrow> error + VFXDirsConfig option" where
  "load_default host fs toml_loads ctx env_arg =
     load host fs toml_loads (default_config_path ctx) env_arg (Some ctx)"

section \<open>The violations of a raw configuration\<close>

text \<open>
  A violation is a place of the raw configuration that has not the shape asked for, with
  what is wrong there. The place is the list of keys that leads to it, the identifier of
  an application in its normalized form: \<open>[apps, maya, paths, cache]\<close> is written
  \<^verbatim>\<open>apps.maya.paths.cache\<close>. An empty identifier has no place to name.
\<close>

datatype violation =
  RootNotATable
| NotATable "string list"
| NotAString "string list" string
| EmptyPath "string list"
| EmptyAppId

definition render :: "string list \<Rightarrow> string" where
  "render loc = join_sep ''.'' loc"


text \<open>The message the parser has for each violation.\<close>

fun message :: "violation \<Rightarrow> string" where
  "message RootNotATable = ''Config root must be a TOML table or object''"
| "message (NotATable loc) = ''`'' @ render loc @ ''` must be a TOML table or object''"
| "message (NotAString loc t) = render loc @ '' must be a string path but got '' @ t"
| "message (EmptyPath loc) = render loc @ '' cannot be an empty path''"
| "message EmptyAppId = ''app_id cannot be empty''"







text \<open>
  \<^verbatim>\<open>tbl.get(key, {}) or {}\<close> is written for \<^verbatim>\<open>None\<close>, and replaces as well every other
  value that is not true: \<^verbatim>\<open>False\<close>, \<^verbatim>\<open>0\<close>, \<^verbatim>\<open>""\<close>, \<^verbatim>\<open>[]\<close>. Such a value of \<^verbatim>\<open>install\<close> or
  \<^verbatim>\<open>paths\<close> is a violation that the parser does not see. \<open>no_swallowed\<close> holds of the raw
  configurations that have none.
\<close>

definition swallowed :: "pyval \<Rightarrow> bool" where
  "swallowed v = (v \<noteq> PNone \<and> \<not> is_Mapping v \<and> \<not> truthy v)"





section \<open>Merging on a heap\<close>

text \<open>
  The functions above return values and cannot change what they are given. To ask
  whether \<^verbatim>\<open>merged\<close> changes its inputs, the same code is modelled once more on a heap of
  objects: a dictionary is a cell that \<^verbatim>\<open>d[k] = v\<close> overwrites, an instance of a dataclass
  is a cell holding the addresses of its mappings, and every constructor and every
  \<^verbatim>\<open>dict(...)\<close> takes a new address at the end of the heap. A \<^verbatim>\<open>MappingProxyType\<close> is
  read as the dictionary it shows, which nothing else refers to.
\<close>

type_synonym addr = nat

datatype obj =
  PathsDict "(KeyLike, Path) dict"
| AppsDict "(string, addr) dict"
| AppObj "Path option" InstallOverride addr
| CfgObj addr

type_synonym heap = "obj list"

definition alloc :: "obj \<Rightarrow> heap \<Rightarrow> addr \<times> heap" where
  "alloc x h = (length h, h @ [x])"

text \<open>
  Reading an attribute or a mapping through an address. A wrong kind of object there is
  a \<^verbatim>\<open>TypeError\<close>; so is an address beyond the heap, which no Python reference is.
\<close>

definition get_paths :: "heap \<Rightarrow> addr \<Rightarrow> error + (KeyLike, Path) dict" where
  "get_paths h a =
     (if a < length h then (case h ! a of PathsDict d \<Rightarrow> Inr d | _ \<Rightarrow> Inl TypeError)
      else Inl TypeError)"

definition get_apps :: "heap \<Rightarrow> addr \<Rightarrow> error + (string, addr) dict" where
  "get_apps h a =
     (if a < length h then (case h ! a of AppsDict d \<Rightarrow> Inr d | _ \<Rightarrow> Inl TypeError)
      else Inl TypeError)"

definition get_app :: "heap \<Rightarrow> addr \<Rightarrow> error + Path option \<times> InstallOverride \<times> addr" where
  "get_app h a =
     (if a < length h then (case h ! a of AppObj b i p \<Rightarrow> Inr (b, i, p) | _ \<Rightarrow> Inl TypeError)
      else Inl TypeError)"

definition get_cfg :: "heap \<Rightarrow> addr \<Rightarrow> error + addr" where
  "get_cfg h a =
     (if a < length h then (case h ! a of CfgObj d \<Rightarrow> Inr d | _ \<Rightarrow> Inl TypeError)
      else Inl TypeError)"

text \<open>\<^verbatim>\<open>merged_paths.update(higher.paths)\<close> on the cell \<open>m\<close>.\<close>

fun update_h :: "addr \<Rightarrow> (KeyLike, Path) dict \<Rightarrow> heap \<Rightarrow> error + heap" where
  "update_h m [] h = Inr h"
| "update_h m ((k, v) # rest) h =
     (case get_paths h m of
        Inl e \<Rightarrow> Inl e
      | Inr d \<Rightarrow> update_h m rest (h[m := PathsDict (dict_set d k v)]))"

text \<open>The loop of \<^verbatim>\<open>AppConfig.__post_init__\<close>, writing into the cell \<open>n\<close>.\<close>

fun normalize_paths_h :: "addr \<Rightarrow> (KeyLike, Path) dict \<Rightarrow> heap \<Rightarrow> error + heap" where
  "normalize_paths_h n [] h = Inr h"
| "normalize_paths_h n ((k, v) # rest) h =
     (case get_paths h n of
        Inl e \<Rightarrow> Inl e
      | Inr d \<Rightarrow> normalize_paths_h n rest (h[n := PathsDict (dict_set d (normalize_key k) v)]))"

text \<open>
  \<^verbatim>\<open>AppConfig(base=b, install=i, paths=p)\<close>: the instance is made with the mapping it was
  given; \<^verbatim>\<open>__post_init__\<close> makes \<^verbatim>\<open>normalized\<close>, copies the mapping to walk it, fills
  \<^verbatim>\<open>normalized\<close> and sets it as the \<^verbatim>\<open>paths\<close> of the new instance.
\<close>

definition AppConfig_new ::
  "Path option \<Rightarrow> InstallOverride \<Rightarrow> addr \<Rightarrow> heap \<Rightarrow> error + addr \<times> heap" where
  "AppConfig_new b i p h =
     (case get_paths h p of
        Inl e \<Rightarrow> Inl e
      | Inr items \<Rightarrow>
     (case alloc (AppObj b i p) h of (self, h1) \<Rightarrow>
     (case alloc (PathsDict []) h1 of (normalized, h2) \<Rightarrow>
     (case alloc (PathsDict items) h2 of (copy, h3) \<Rightarrow>
     (case normalize_paths_h normalized items h3 of
        Inl e \<Rightarrow> Inl e
      | Inr h4 \<Rightarrow> Inr (self, h4[self := AppObj b i normalized]))))))"

definition AppConfig_merged_h :: "addr \<Rightarrow> addr \<Rightarrow> heap \<Rightarrow> error + addr \<times> heap" where
  "AppConfig_merged_h self higher h =
     (case get_app h self of
        Inl e \<Rightarrow> Inl e
      | Inr (self_base, self_install, self_paths) \<Rightarrow>
     (case get_paths h self_paths of
        Inl e \<Rightarrow> Inl e
      | Inr self_items \<Rightarrow>
     (case alloc (PathsDict self_items) h of (merged_paths, h1) \<Rightarrow>
     (case get_app h1 higher of
        Inl e \<Rightarrow> Inl e
      | Inr (higher_base, higher_install, higher_paths) \<Rightarrow>
     (case get_paths h1 higher_paths of
        Inl e \<Rightarrow> Inl e
      | Inr higher_items \<Rightarrow>
     (case update_h merged_paths higher_items h1 of
        Inl e \<Rightarrow> Inl e
      | Inr h2 \<Rightarrow>
          AppConfig_new
            (if higher_base \<noteq> None then higher_base else self_base)
            (InstallOverride_merged self_install higher_install)
            merged_paths h2))))))"

text \<open>The loop of \<^verbatim>\<open>VFXDirsConfig.__post_init__\<close>, writing into the cell \<open>n\<close>.\<close>

fun normalize_apps_h :: "addr \<Rightarrow> (string, addr) dict \<Rightarrow> heap \<Rightarrow> error + heap" where
  "normalize_apps_h n [] h = Inr h"
| "normalize_apps_h n ((app_id, cfg) # rest) h =
     (case normalize_app_id app_id of
        Inl e \<Rightarrow> Inl e
      | Inr norm_id \<Rightarrow>
     (case get_apps h n of
        Inl e \<Rightarrow> Inl e
      | Inr d \<Rightarrow> normalize_apps_h n rest (h[n := AppsDict (dict_set d norm_id cfg)])))"

definition VFXDirsConfig_new :: "addr \<Rightarrow> heap \<Rightarrow> error + addr \<times> heap" where
  "VFXDirsConfig_new a h =
     (case get_apps h a of
        Inl e \<Rightarrow> Inl e
      | Inr items \<Rightarrow>
     (case alloc (CfgObj a) h of (self, h1) \<Rightarrow>
     (case alloc (AppsDict []) h1 of (normalized, h2) \<Rightarrow>
     (case alloc (AppsDict items) h2 of (copy, h3) \<Rightarrow>
     (case normalize_apps_h normalized items h3 of
        Inl e \<Rightarrow> Inl e
      | Inr h4 \<Rightarrow> Inr (self, h4[self := CfgObj normalized]))))))"

text \<open>The loop of \<^verbatim>\<open>VFXDirsConfig.merged\<close>, writing into the cell \<open>merged_apps\<close>.\<close>

fun merge_apps_h :: "addr \<Rightarrow> (string, addr) dict \<Rightarrow> heap \<Rightarrow> error + heap" where
  "merge_apps_h merged_apps [] h = Inr h"
| "merge_apps_h merged_apps ((app_id, higher_app) # rest) h =
     (case get_apps h merged_apps of
        Inl e \<Rightarrow> Inl e
      | Inr d \<Rightarrow>
     (case dict_get d app_id of
        None \<Rightarrow>
          merge_apps_h merged_apps rest (h[merged_apps := AppsDict (dict_set d app_id higher_app)])
      | Some lower_app \<Rightarrow>
     (case AppConfig_merged_h lower_app higher_app h of
        Inl e \<Rightarrow> Inl e
      | Inr (r, h1) \<Rightarrow>
     (case get_apps h1 merged_apps of
        Inl e \<Rightarrow> Inl e
      | Inr d1 \<Rightarrow>
          merge_apps_h merged_apps rest (h1[merged_apps := AppsDict (dict_set d1 app_id r)])))))"

definition VFXDirsConfig_merged_h :: "addr \<Rightarrow> addr option \<Rightarrow> heap \<Rightarrow> error + addr \<times> heap" where
  "VFXDirsConfig_merged_h self higher h =
     (case higher of
        None \<Rightarrow> Inr (self, h)
      | Some hg \<Rightarrow>
     (case get_cfg h self of
        Inl e \<Rightarrow> Inl e
      | Inr self_apps \<Rightarrow>
     (case get_apps h self_apps of
        Inl e \<Rightarrow> Inl e
      | Inr self_items \<Rightarrow>
     (case alloc (AppsDict self_items) h of (merged_apps, h1) \<Rightarrow>
     (case get_cfg h1 hg of
        Inl e \<Rightarrow> Inl e
      | Inr higher_apps \<Rightarrow>
     (case get_apps h1 higher_apps of
        Inl e \<Rightarrow> Inl e
      | Inr higher_items \<Rightarrow>
     (case merge_apps_h merged_apps higher_items h1 of
        Inl e \<Rightarrow> Inl e
      | Inr h2 \<Rightarrow> VFXDirsConfig_new merged_apps h2)))))))"

text \<open>What an address stands for: the value of the configuration found there.\<close>

definition abs_app :: "heap \<Rightarrow> addr \<Rightarrow> AppConfig option" where
  "abs_app h a =
     (case get_app h a of
        Inl e \<Rightarrow> None
      | Inr (b, i, p) \<Rightarrow>
          (case get_paths h p of
             Inl e \<Rightarrow> None
           | Inr d \<Rightarrow> Some \<lparr>base = b, install = i, paths = d\<rparr>))"

fun abs_apps :: "heap \<Rightarrow> (string, addr) dict \<Rightarrow> (string, AppConfig) dict option" where
  "abs_apps h [] = Some []"
| "abs_apps h ((k, a) # rest) =
     (case abs_app h a of
        None \<Rightarrow> None
      | Some v \<Rightarrow> (case abs_apps h rest of None \<Rightarrow> None | Some vs \<Rightarrow> Some ((k, v) # vs)))"

definition abs_cfg :: "heap \<Rightarrow> addr \<Rightarrow> VFXDirsConfig option" where
  "abs_cfg h c =
     (case get_cfg h c of
        Inl e \<Rightarrow> None
      | Inr a \<Rightarrow>
          (case get_apps h a of
             Inl e \<Rightarrow> None
           | Inr items \<Rightarrow>
               (case abs_apps h items of None \<Rightarrow> None | Some vs \<Rightarrow> Some \<lparr>apps = vs\<rparr>)))"

section \<open>Merging dictionaries, in general\<close>

text \<open>
  Both merge loops have one shape: every item of the second dictionary is stored into the
  first, combined with the value already there. \<open>dict_merge\<close> is that shape with the
  combination as a parameter; the loops are shown to be instances of it, and it is
  used only in proofs.
\<close>

definition dict_step :: "('v \<Rightarrow> 'v \<Rightarrow> 'v) \<Rightarrow> ('k, 'v) dict \<Rightarrow> 'k \<Rightarrow> 'v \<Rightarrow> ('k, 'v) dict" where
  "dict_step f d k v = dict_set d k (case dict_get d k of None \<Rightarrow> v | Some u \<Rightarrow> f u v)"

fun dict_merge :: "('v \<Rightarrow> 'v \<Rightarrow> 'v) \<Rightarrow> ('k, 'v) dict \<Rightarrow> ('k, 'v) dict \<Rightarrow> ('k, 'v) dict" where
  "dict_merge f d [] = d"
| "dict_merge f d ((k, v) # e) = dict_merge f (dict_step f d k v) e"


section \<open>Example configurations\<close>

definition example_lower :: AppConfig where
  "example_lower =
     \<lparr>base = Some (Path_of_str ''/l''),
      install = \<lparr>root = Some (Path_of_str ''/r''), executable = None\<rparr>,
      paths = [(''cache'', Path_of_str ''/a''), (''data'', Path_of_str ''/d'')]\<rparr>"

definition example_higher :: AppConfig where
  "example_higher =
     \<lparr>base = None,
      install = \<lparr>root = None, executable = Some (Path_of_str ''/x'')\<rparr>,
      paths = [(''logs'', Path_of_str ''/b''), (''cache'', Path_of_str ''/c'')]\<rparr>"

definition example_A :: VFXDirsConfig where
  "example_A = \<lparr>apps = [(''maya'', example_lower)]\<rparr>"

definition example_B :: VFXDirsConfig where
  "example_B = \<lparr>apps = [(''nuke'', example_lower), (''maya'', example_higher)]\<rparr>"

definition example_C :: VFXDirsConfig where
  "example_C = \<lparr>apps = [(''maya'', example_lower), (''houdini'', example_higher)]\<rparr>"

definition example_host :: Host where
  "example_host =
     \<lparr>sys_platform = ''linux'', os_environ = [(''HOME'', ''/home/u'')],
      Path_home = Some (Path_of_str ''/home/u''), Path_cwd = Some (Path_of_str ''/work''),
      gettempdir = Some ''/tmp''\<rparr>"

definition appdata_roaming :: string where
  "appdata_roaming =
     ''C:'' @ [backslash] @ ''Users'' @ [backslash] @ ''u'' @ [backslash] @ ''AppData'' @
     [backslash] @ ''Roaming''"

definition example_ctx :: Context where
  "example_ctx =
     \<lparr>os = linux, env = [(''FOO'', ''/opt/foo'')], home = Path_of_str ''/home/u'',
      cwd = Path_of_str ''/work'', temp_dir = Path_of_str ''/tmp'',
      config_home = Path_of_str ''/home/u/.config'',
      data_home = Path_of_str ''/home/u/.local/share'',
      cache_home = Path_of_str ''/home/u/.cache'',
      install_roots = [Path_of_str ''/opt'', Path_of_str ''/usr/local'', Path_of_str ''/usr'']\<rparr>"


definition example_fs :: "Path \<Rightarrow> file_state" where
  "example_fs p =
     (if p = Path_of_str ''/etc/vfx/config.toml'' then Contents ''apps = 1''
      else if p = Path_of_str ''/etc/vfx/broken.toml'' then Contents ''apps =''
      else if p = Path_of_str ''/etc/vfx/empty.toml'' then Contents []
      else if p = Path_of_str ''/etc/vfx'' then Unreadable
      else if p = Path_of_str ''/etc/vfx/latin1.toml'' then Undecodable
      else if p = Path_of_str ''/root/config.toml'' then Inaccessible
      else Missing)"

definition example_loads :: "string \<Rightarrow> pyval option" where
  "example_loads text =
     (if text = ''apps = 1'' then Some (PTable [(''apps'', PInt 1)])
      else if text = [] then Some (PTable [])
      else None)"

definition example_heap :: heap where
  "example_heap =
     [PathsDict [(''cache'', Path_of_str ''/a'')],
      AppObj None \<lparr>root = None, executable = None\<rparr> 0,
      AppsDict [(''maya'', 1)],
      CfgObj 2,
      PathsDict [(''logs'', Path_of_str ''/b''), (''cache'', Path_of_str ''/c'')],
      AppObj (Some (Path_of_str ''/m'')) \<lparr>root = None, executable = None\<rparr> 4,
      AppsDict [(''nuke'', 5), (''maya'', 5)],
      CfgObj 6]"

definition example_heap_lower :: VFXDirsConfig where
  "example_heap_lower =
     \<lparr>apps = [(''maya'', \<lparr>base = None, install = \<lparr>root = None, executable = None\<rparr>,
                          paths = [(''cache'', Path_of_str ''/a'')]\<rparr>)]\<rparr>"

definition example_heap_higher :: VFXDirsConfig where
  "example_heap_higher =
     \<lparr>apps =
        [(''nuke'', \<lparr>base = Some (Path_of_str ''/m''),
                     install = \<lparr>root = None, executable = None\<rparr>,
                     paths = [(''logs'', Path_of_str ''/b''), (''cache'', Path_of_str ''/c'')]\<rparr>),
         (''maya'', \<lparr>base = Some (Path_of_str ''/m''),
                     install = \<lparr>root = None, executable = None\<rparr>,
                     paths = [(''logs'', Path_of_str ''/b''), (''cache'', Path_of_str ''/c'')]\<rparr>)]\<rparr>"



section \<open>Verification\<close>

subsection \<open>Strings\<close>

lemma of_char_lower_bound: "(of_char (c::char) :: nat) < 256"
  by (cases c) (simp add: numeral_eq_Suc)

lemma char_lower_idem: "char_lower (char_lower c) = char_lower c"
proof (cases "is_upper c")
  case False then show ?thesis by (simp add: char_lower_def)
next
  case True
  have b: "(of_char c :: nat) < 256" by (rule of_char_lower_bound)
  from True have r: "(65 \<le> (of_char c::nat) \<and> (of_char c::nat) \<le> 90) \<or> (192 \<le> (of_char c::nat) \<and> (of_char c::nat) \<le> 222)"
    by (auto simp: is_upper_def Let_def)
  then have m: "(of_char (char_of ((of_char c :: nat) + 32)) :: nat) = of_char c + 32"
    by (auto simp: of_char_of)
  have "\<not> is_upper (char_of ((of_char c :: nat) + 32))"
    using r unfolding is_upper_def Let_def m by auto
  then show ?thesis using True by (simp add: char_lower_def)
qed

lemma isspace_char_lower: "isspace (char_lower c) = isspace c"
proof (cases "is_upper c")
  case False then show ?thesis by (simp add: char_lower_def)
next
  case True
  then have r: "(65 \<le> (of_char c::nat) \<and> (of_char c::nat) \<le> 90) \<or> (192 \<le> (of_char c::nat) \<and> (of_char c::nat) \<le> 222)"
    by (auto simp: is_upper_def Let_def)
  then have m: "(of_char (char_of ((of_char c :: nat) + 32)) :: nat) = of_char c + 32"
    by (auto simp: of_char_of)
  show ?thesis using True r unfolding char_lower_def isspace_def Let_def by (auto simp: m)
qed

lemma lower_idem: "lower (lower s) = lower s"
  by (simp add: lower_def char_lower_idem)

lemma dropWhile_isspace_lower:
  "dropWhile isspace (map char_lower s) = map char_lower (dropWhile isspace s)"
  by (induction s) (auto simp: isspace_char_lower)

lemma strip_lower: "strip (lower s) = lower (strip s)"
  by (simp add: strip_def lower_def dropWhile_isspace_lower rev_map)

lemma dropWhile_unchanged: "t = [] \<or> \<not> P (hd t) \<Longrightarrow> dropWhile P t = t"
  by (cases t) auto

lemma dropWhile_rev_dropWhile:
  "dropWhile P (rev (dropWhile P (rev (dropWhile P s)))) = rev (dropWhile P (rev (dropWhile P s)))"
proof -
  define t where "t = dropWhile P s"
  define u where "u = rev (dropWhile P (rev t))"
  have t: "t = [] \<or> \<not> P (hd t)"
    unfolding t_def by (metis hd_dropWhile)
  have split: "t = u @ rev (takeWhile P (rev t))"
    unfolding u_def by (metis rev_append rev_rev_ident takeWhile_dropWhile_id)
  have "u = [] \<or> \<not> P (hd u)"
  proof (cases u)
    case Nil then show ?thesis by simp
  next
    case (Cons x xs)
    with split have "hd t = x" by (metis append_Cons list.sel(1))
    moreover have "t \<noteq> []" using split Cons by auto
    ultimately show ?thesis using t Cons by simp
  qed
  then have "dropWhile P u = u" by (rule dropWhile_unchanged)
  then show ?thesis unfolding u_def t_def .
qed

lemma strip_idem: "strip (strip s) = strip s"
  unfolding strip_def by (simp add: dropWhile_rev_dropWhile)

lemma normalize_key_idem: "normalize_key (normalize_key k) = normalize_key k"
  by (simp add: normalize_key_def strip_lower strip_idem lower_idem)

subsection \<open>Dictionaries\<close>

lemma keys_Nil: "keys [] = []"
  by (simp add: keys_def)

lemma keys_Cons: "keys ((k, v) # d) = k # keys d"
  by (simp add: keys_def)

lemma keys_append: "keys (d @ e) = keys d @ keys e"
  by (simp add: keys_def)

lemma map_of_dict_set: "map_of (dict_set d k v) = (map_of d)(k \<mapsto> v)"
  by (induction d) (auto simp: fun_eq_iff)

lemma keys_dict_set_list:
  "keys (dict_set d k v) = (if k \<in> set (keys d) then keys d else keys d @ [k])"
proof (induction d)
  case Nil then show ?case by (simp add: keys_Nil keys_Cons)
next
  case (Cons a d)
  obtain k' v' where a: "a = (k', v')" by (cases a)
  show ?case unfolding a using Cons.IH by (simp add: keys_Cons)
qed

lemma keys_dict_set: "set (keys (dict_set d k v)) = insert k (set (keys d))"
  by (auto simp: keys_dict_set_list)

lemma distinct_dict_set: "distinct (keys d) \<Longrightarrow> distinct (keys (dict_set d k v))"
  by (simp add: keys_dict_set_list)

lemma dict_set_fresh: "k \<notin> set (keys d) \<Longrightarrow> dict_set d k v = d @ [(k, v)]"
proof (induction d)
  case Nil then show ?case by simp
next
  case (Cons a d)
  obtain k' v' where a: "a = (k', v')" by (cases a)
  show ?case using Cons unfolding a by (auto simp: keys_Cons)
qed

lemma values_dict_set: "set (map snd (dict_set d k v)) \<subseteq> insert v (set (map snd d))"
proof (induction d)
  case Nil then show ?case by simp
next
  case (Cons a d)
  obtain k' v' where a: "a = (k', v')" by (cases a)
  show ?case using Cons unfolding a by (cases "k' = k") auto
qed

lemma dict_update_append: "dict_update d (e @ f) = dict_update (dict_update d e) f"
  by (induction e arbitrary: d) auto

lemma dict_update_fresh: "distinct (keys (d @ e)) \<Longrightarrow> dict_update d e = d @ e"
proof (induction e arbitrary: d)
  case Nil then show ?case by simp
next
  case (Cons a e)
  obtain k v where a: "a = (k, v)" by (cases a)
  from Cons.prems a have f: "k \<notin> set (keys d)" by (auto simp: keys_append keys_Cons)
  have "distinct (keys ((d @ [(k, v)]) @ e))"
    using Cons.prems a by (simp add: keys_append keys_Cons keys_Nil)
  from Cons.IH [OF this] show ?case using a f by (simp add: dict_set_fresh)
qed

lemma dict_update_Nil: "distinct (keys e) \<Longrightarrow> dict_update [] e = e"
  using dict_update_fresh [of "[]" e] by simp

lemma map_of_dict_update:
  "distinct (keys e) \<Longrightarrow> map_of (dict_update d e) = map_of d ++ map_of e"
proof (induction e arbitrary: d)
  case Nil then show ?case by simp
next
  case (Cons a e)
  obtain k v where a: "a = (k, v)" by (cases a)
  from Cons.prems a have e: "distinct (keys e)" and f: "k \<notin> set (keys e)"
    by (auto simp: keys_Cons)
  have n: "map_of e k = None" using f by (simp add: keys_def map_of_eq_None_iff)
  show ?case unfolding a
    by (auto simp: Cons.IH [OF e] map_of_dict_set fun_eq_iff map_add_def n split: option.splits)
qed

lemma keys_dict_update: "set (keys (dict_update d e)) = set (keys d) \<union> set (keys e)"
proof (induction e arbitrary: d)
  case Nil then show ?case by (simp add: keys_Nil)
next
  case (Cons a e)
  obtain k v where a: "a = (k, v)" by (cases a)
  show ?case unfolding a by (simp add: Cons.IH keys_dict_set keys_Cons)
qed

lemma distinct_dict_update: "distinct (keys d) \<Longrightarrow> distinct (keys (dict_update d e))"
proof (induction e arbitrary: d)
  case Nil then show ?case by simp
next
  case (Cons a e)
  obtain k v where a: "a = (k, v)" by (cases a)
  show ?case unfolding a using Cons by (simp add: distinct_dict_set)
qed

subsection \<open>The constructors are the identity on what they build\<close>

lemma normalize_paths_update:
  "list_all (\<lambda>k. normalize_key k = k) (keys p) \<Longrightarrow> normalize_paths n p = dict_update n p"
proof (induction p arbitrary: n)
  case Nil then show ?case by simp
next
  case (Cons a p)
  obtain k v where a: "a = (k, v)" by (cases a)
  show ?case using Cons unfolding a by (simp add: keys_Cons)
qed

lemma keys_normalize_paths:
  "set (keys (normalize_paths n p)) = set (keys n) \<union> normalize_key ` set (keys p)"
proof (induction p arbitrary: n)
  case Nil then show ?case by (simp add: keys_Nil)
next
  case (Cons a p)
  obtain k v where a: "a = (k, v)" by (cases a)
  show ?case unfolding a by (simp add: Cons.IH keys_dict_set keys_Cons)
qed

lemma distinct_normalize_paths:
  "distinct (keys n) \<Longrightarrow> distinct (keys (normalize_paths n p))"
proof (induction p arbitrary: n)
  case Nil then show ?case by simp
next
  case (Cons a p)
  obtain k v where a: "a = (k, v)" by (cases a)
  show ?case unfolding a using Cons by (simp add: distinct_dict_set)
qed

lemma inv_AppConfig_init: "inv_AppConfig (AppConfig_init b i p)"
proof -
  have "distinct (keys (normalize_paths [] p))"
    by (rule distinct_normalize_paths) (simp add: keys_Nil)
  moreover have "\<forall>k \<in> set (keys (normalize_paths [] p)). normalize_key k = k"
    by (auto simp: keys_normalize_paths keys_Nil normalize_key_idem)
  ultimately show ?thesis
    by (simp add: inv_AppConfig_def AppConfig_init_def list_all_iff)
qed

lemma AppConfig_init_id:
  "inv_AppConfig a \<Longrightarrow> AppConfig_init (base a) (install a) (paths a) = a"
  unfolding inv_AppConfig_def AppConfig_init_def
  by (simp add: normalize_paths_update dict_update_Nil)

lemma AppConfig_merged_eq:
  assumes "inv_AppConfig lo" "inv_AppConfig hi"
  shows "AppConfig_merged lo hi =
         \<lparr>base = (if base hi \<noteq> None then base hi else base lo),
          install = InstallOverride_merged (install lo) (install hi),
          paths = dict_update (paths lo) (paths hi)\<rparr>"
proof -
  let ?m = "dict_update (paths lo) (paths hi)"
  have d: "distinct (keys ?m)" using assms by (simp add: distinct_dict_update inv_AppConfig_def)
  have n: "list_all (\<lambda>k. normalize_key k = k) (keys ?m)"
    using assms by (auto simp: list_all_iff keys_dict_update inv_AppConfig_def)
  show ?thesis
    unfolding AppConfig_merged_def AppConfig_init_def Let_def
    using d by (simp add: normalize_paths_update [OF n] dict_update_Nil)
qed

lemma inv_AppConfig_merged: "inv_AppConfig (AppConfig_merged lo hi)"
  unfolding AppConfig_merged_def Let_def by (rule inv_AppConfig_init)

lemma merge_apps_dict_merge: "merge_apps d e = dict_merge AppConfig_merged d e"
proof (induction e arbitrary: d)
  case Nil then show ?case by simp
next
  case (Cons a e)
  obtain k v where a: "a = (k, v)" by (cases a)
  show ?case unfolding a by (simp add: Cons.IH dict_step_def)
qed

lemma dict_update_dict_merge: "dict_update d e = dict_merge (\<lambda>u v. v) d e"
proof (induction e arbitrary: d)
  case Nil then show ?case by simp
next
  case (Cons a e)
  obtain k v where a: "a = (k, v)" by (cases a)
  have "dict_step (\<lambda>u v. v) d k v = dict_set d k v"
    by (simp add: dict_step_def split: option.splits)
  then show ?case unfolding a by (simp add: Cons.IH)
qed

lemma dict_step_Nil: "dict_step f [] k v = [(k, v)]"
  by (simp add: dict_step_def dict_get_def)

lemma dict_step_Cons_same: "dict_step f ((k, u) # d) k v = (k, f u v) # d"
  by (simp add: dict_step_def dict_get_def)

lemma dict_step_Cons_other: "k' \<noteq> k \<Longrightarrow> dict_step f ((k', u) # d) k v = (k', u) # dict_step f d k v"
  by (simp add: dict_step_def dict_get_def)

lemma keys_dict_step_list:
  "keys (dict_step f d k v) = (if k \<in> set (keys d) then keys d else keys d @ [k])"
  by (simp add: dict_step_def keys_dict_set_list)

lemma dict_step_fresh: "k \<notin> set (keys d) \<Longrightarrow> dict_step f d k v = d @ [(k, v)]"
proof -
  assume a: "k \<notin> set (keys d)"
  then have "map_of d k = None" by (simp add: keys_def map_of_eq_None_iff)
  then show ?thesis using a by (simp add: dict_step_def dict_get_def dict_set_fresh)
qed

lemma values_dict_step:
  "list_all P (map snd d) \<Longrightarrow> P v \<Longrightarrow> (\<And>x y. P x \<Longrightarrow> P y \<Longrightarrow> P (f x y)) \<Longrightarrow>
   list_all P (map snd (dict_step f d k v))"
proof (induction d)
  case Nil then show ?case by (simp add: dict_step_Nil)
next
  case (Cons a d)
  obtain k' u where a: "a = (k', u)" by (cases a)
  show ?case
  proof (cases "k' = k")
    case True then show ?thesis using Cons.prems unfolding a by (simp add: dict_step_Cons_same)
  next
    case False then show ?thesis using Cons unfolding a by (simp add: dict_step_Cons_other)
  qed
qed

lemma keys_dict_merge: "set (keys (dict_merge f d e)) = set (keys d) \<union> set (keys e)"
proof (induction e arbitrary: d)
  case Nil then show ?case by (simp add: keys_Nil)
next
  case (Cons a e)
  obtain k v where a: "a = (k, v)" by (cases a)
  show ?case unfolding a by (auto simp: Cons.IH keys_dict_step_list keys_Cons)
qed

lemma distinct_dict_merge: "distinct (keys d) \<Longrightarrow> distinct (keys (dict_merge f d e))"
proof (induction e arbitrary: d)
  case Nil then show ?case by simp
next
  case (Cons a e)
  obtain k v where a: "a = (k, v)" by (cases a)
  have "distinct (keys (dict_step f d k v))" using Cons.prems by (simp add: keys_dict_step_list)
  then show ?case unfolding a using Cons.IH by simp
qed

lemma values_dict_merge:
  "list_all P (map snd d) \<Longrightarrow> list_all P (map snd e) \<Longrightarrow>
   (\<And>x y. P x \<Longrightarrow> P y \<Longrightarrow> P (f x y)) \<Longrightarrow> list_all P (map snd (dict_merge f d e))"
proof (induction e arbitrary: d)
  case Nil then show ?case by simp
next
  case (Cons a e)
  obtain k v where a: "a = (k, v)" by (cases a)
  have "list_all P (map snd (dict_step f d k v))"
    using Cons.prems unfolding a by (intro values_dict_step) auto
  then show ?case unfolding a using Cons.IH Cons.prems a by simp
qed

lemma dict_merge_fresh: "distinct (keys (d @ e)) \<Longrightarrow> dict_merge f d e = d @ e"
proof (induction e arbitrary: d)
  case Nil then show ?case by simp
next
  case (Cons a e)
  obtain k v where a: "a = (k, v)" by (cases a)
  from Cons.prems a have f: "k \<notin> set (keys d)" by (auto simp: keys_append keys_Cons)
  have "distinct (keys ((d @ [(k, v)]) @ e))"
    using Cons.prems a by (simp add: keys_append keys_Cons keys_Nil)
  from Cons.IH [OF this] show ?case using a f by (simp add: dict_step_fresh)
qed

lemma map_of_dict_step:
  "map_of (dict_step f d k v) =
     (map_of d)(k \<mapsto> (case map_of d k of None \<Rightarrow> v | Some u \<Rightarrow> f u v))"
  by (simp add: dict_step_def dict_get_def map_of_dict_set)

lemma map_of_dict_merge:
  "distinct (keys e) \<Longrightarrow>
   map_of (dict_merge f d e) k =
     (case map_of e k of
        None \<Rightarrow> map_of d k
      | Some v \<Rightarrow> (case map_of d k of None \<Rightarrow> Some v | Some u \<Rightarrow> Some (f u v)))"
proof (induction e arbitrary: d k)
  case Nil then show ?case by simp
next
  case (Cons a e)
  obtain k' v' where a: "a = (k', v')" by (cases a)
  from Cons.prems a have e: "distinct (keys e)" and f: "k' \<notin> set (keys e)"
    by (auto simp: keys_Cons)
  have n: "map_of e k' = None" using f by (simp add: keys_def map_of_eq_None_iff)
  show ?case unfolding a
    by (auto simp: Cons.IH [OF e] map_of_dict_step n split: option.splits)
qed

lemma dict_step_commute:
  "k \<noteq> k1 \<Longrightarrow> k \<in> set (keys d) \<Longrightarrow>
   dict_step f (dict_step f d k1 v1) k v = dict_step f (dict_step f d k v) k1 v1"
proof (induction d)
  case Nil then show ?case by (simp add: keys_Nil)
next
  case (Cons a d)
  obtain k2 u2 where a: "a = (k2, u2)" by (cases a)
  consider "k2 = k" | "k2 = k1" | "k2 \<noteq> k" "k2 \<noteq> k1" by blast
  then show ?case
  proof cases
    case 1
    then show ?thesis using Cons.prems unfolding a
      by (simp add: dict_step_Cons_same dict_step_Cons_other)
  next
    case 2
    then have "k \<in> set (keys d)" using Cons.prems unfolding a by (simp add: keys_Cons)
    then show ?thesis using 2 Cons.prems unfolding a
      by (simp add: dict_step_Cons_same dict_step_Cons_other)
  next
    case 3
    then have "k \<in> set (keys d)" using Cons.prems unfolding a by (auto simp: keys_Cons)
    then show ?thesis using 3 Cons unfolding a
      by (simp add: dict_step_Cons_other)
  qed
qed

lemma dict_step_merge_commute:
  "k \<in> set (keys d) \<Longrightarrow> k \<notin> set (keys e) \<Longrightarrow>
   dict_step f (dict_merge f d e) k v = dict_merge f (dict_step f d k v) e"
proof (induction e arbitrary: d)
  case Nil then show ?case by simp
next
  case (Cons a e)
  obtain k1 v1 where a: "a = (k1, v1)" by (cases a)
  from Cons.prems have ne: "k \<noteq> k1" and ni: "k \<notin> set (keys e)"
    unfolding a by (auto simp: keys_Cons)
  have i: "k \<in> set (keys (dict_step f d k1 v1))"
    using Cons.prems(1) by (simp add: keys_dict_step_list)
  show ?case unfolding a
    by (simp add: Cons.IH [OF i ni] dict_step_commute [OF ne Cons.prems(1)])
qed

lemma dict_step_twice:
  assumes "\<And>x. x \<in> set (map snd a) \<Longrightarrow> f (f x u) v = f x (f u v)"
  shows "dict_step f (dict_step f a k u) k v = dict_step f a k (f u v)"
  using assms
proof (induction a)
  case Nil then show ?case by (simp add: dict_step_Nil dict_step_Cons_same)
next
  case (Cons b a)
  obtain k2 w where b: "b = (k2, w)" by (cases b)
  show ?case
  proof (cases "k2 = k")
    case True
    then show ?thesis using Cons.prems unfolding b by (simp add: dict_step_Cons_same)
  next
    case False
    then show ?thesis using Cons unfolding b by (simp add: dict_step_Cons_other)
  qed
qed

lemma dict_merge_step:
  assumes assoc: "\<And>x y z. P x \<Longrightarrow> P y \<Longrightarrow> P z \<Longrightarrow> f (f x y) z = f x (f y z)"
    and closed: "\<And>x y. P x \<Longrightarrow> P y \<Longrightarrow> P (f x y)"
  shows "distinct (keys b) \<Longrightarrow> list_all P (map snd a) \<Longrightarrow> list_all P (map snd b) \<Longrightarrow> P v \<Longrightarrow>
         dict_merge f a (dict_step f b k v) = dict_step f (dict_merge f a b) k v"
proof (induction b arbitrary: a)
  case Nil then show ?case by (simp add: dict_step_Nil)
next
  case (Cons c b)
  obtain k1 u where c: "c = (k1, u)" by (cases c)
  from Cons.prems have d: "distinct (keys b)" and ni: "k1 \<notin> set (keys b)"
    and pu: "P u" and pb: "list_all P (map snd b)"
    unfolding c by (auto simp: keys_Cons)
  show ?case
  proof (cases "k1 = k")
    case True
    have i: "k \<in> set (keys (dict_step f a k u))" by (simp add: keys_dict_step_list)
    have t: "dict_step f (dict_step f a k u) k v = dict_step f a k (f u v)"
      by (rule dict_step_twice) (use Cons.prems pu assoc in \<open>auto simp: list_all_iff\<close>)
    show ?thesis unfolding c using True ni
      by (simp add: dict_step_Cons_same dict_step_merge_commute [OF i] t)
  next
    case False
    have pa: "list_all P (map snd (dict_step f a k1 u))"
      using Cons.prems pu closed by (intro values_dict_step) auto
    show ?thesis unfolding c using False
      by (simp add: dict_step_Cons_other Cons.IH [OF d pa pb Cons.prems(4)])
  qed
qed

lemma dict_merge_assoc:
  assumes assoc: "\<And>x y z. P x \<Longrightarrow> P y \<Longrightarrow> P z \<Longrightarrow> f (f x y) z = f x (f y z)"
    and closed: "\<And>x y. P x \<Longrightarrow> P y \<Longrightarrow> P (f x y)"
  shows "distinct (keys b) \<Longrightarrow> list_all P (map snd a) \<Longrightarrow> list_all P (map snd b) \<Longrightarrow>
         list_all P (map snd c) \<Longrightarrow>
         dict_merge f a (dict_merge f b c) = dict_merge f (dict_merge f a b) c"
proof (induction c arbitrary: b)
  case Nil then show ?case by simp
next
  case (Cons x c)
  obtain k v where x: "x = (k, v)" by (cases x)
  from Cons.prems have pv: "P v" and pc: "list_all P (map snd c)" unfolding x by auto
  have d: "distinct (keys (dict_step f b k v))"
    using Cons.prems(1) by (simp add: keys_dict_step_list)
  have pb: "list_all P (map snd (dict_step f b k v))"
    using Cons.prems pv closed by (intro values_dict_step) auto
  have "dict_merge f a (dict_merge f b ((k, v) # c)) = dict_merge f a (dict_merge f (dict_step f b k v) c)"
    by simp
  also have "\<dots> = dict_merge f (dict_merge f a (dict_step f b k v)) c"
    by (rule Cons.IH [OF d Cons.prems(2) pb pc])
  also have "dict_merge f a (dict_step f b k v) = dict_step f (dict_merge f a b) k v"
    by (rule dict_merge_step [OF assoc closed Cons.prems(1) Cons.prems(2) Cons.prems(3) pv])
  finally show ?case unfolding x by simp
qed

subsection \<open>Python equality of dictionaries\<close>

lemma dict_eq_refl:
  assumes "distinct (keys a)" and "\<And>v. v \<in> set (map snd a) \<Longrightarrow> veq v v"
  shows "dict_eq veq a a"
proof -
  have "\<And>k v. (k, v) \<in> set a \<Longrightarrow> map_of a k = Some v"
    using assms(1) by (simp add: keys_def)
  then show ?thesis
    using assms(2) by (force simp: dict_eq_def dict_get_def list_all_iff)
qed

lemma AppConfig_eq_refl: "inv_AppConfig a \<Longrightarrow> AppConfig_eq a a"
  by (simp add: AppConfig_eq_def inv_AppConfig_def dict_eq_refl)

lemma VFXDirsConfig_eq_refl: "inv_VFXDirsConfig c \<Longrightarrow> VFXDirsConfig_eq c c"
  unfolding VFXDirsConfig_eq_def inv_VFXDirsConfig_def
  by (intro dict_eq_refl) (auto simp: list_all_iff AppConfig_eq_refl)

subsection \<open>The tree constructor\<close>

lemma normalize_apps_update:
  "list_all (\<lambda>k. normalize_app_id k = Inr k) (keys a) \<Longrightarrow>
   normalize_apps n a = Inr (dict_update n a)"
proof (induction a arbitrary: n)
  case Nil then show ?case by simp
next
  case (Cons x a)
  obtain k v where x: "x = (k, v)" by (cases x)
  show ?case using Cons unfolding x by (simp add: keys_Cons)
qed

lemma VFXDirsConfig_init_id:
  "distinct (keys a) \<Longrightarrow> list_all (\<lambda>k. normalize_app_id k = Inr k) (keys a) \<Longrightarrow>
   VFXDirsConfig_init a = Inr \<lparr>apps = a\<rparr>"
  by (simp add: VFXDirsConfig_init_def normalize_apps_update dict_update_Nil)

lemma inv_merge_apps:
  assumes "inv_VFXDirsConfig A" "inv_VFXDirsConfig B"
  shows "inv_VFXDirsConfig \<lparr>apps = merge_apps (apps A) (apps B)\<rparr>"
proof -
  let ?m = "dict_merge AppConfig_merged (apps A) (apps B)"
  have "distinct (keys ?m)"
    using assms(1) by (simp add: distinct_dict_merge inv_VFXDirsConfig_def)
  moreover have "list_all (\<lambda>k. normalize_app_id k = Inr k) (keys ?m)"
    using assms by (auto simp: list_all_iff keys_dict_merge inv_VFXDirsConfig_def)
  moreover have "list_all inv_AppConfig (map snd ?m)"
    using assms by (intro values_dict_merge) (simp_all add: inv_VFXDirsConfig_def inv_AppConfig_merged)
  ultimately show ?thesis
    by (simp add: inv_VFXDirsConfig_def merge_apps_dict_merge)
qed

lemma VFXDirsConfig_merged_eq:
  assumes "inv_VFXDirsConfig A" "inv_VFXDirsConfig B"
  shows "VFXDirsConfig_merged A (Some B) = Inr \<lparr>apps = merge_apps (apps A) (apps B)\<rparr>"
proof -
  have "inv_VFXDirsConfig \<lparr>apps = merge_apps (apps A) (apps B)\<rparr>"
    using assms by (rule inv_merge_apps)
  then show ?thesis
    by (simp add: VFXDirsConfig_merged_def VFXDirsConfig_init_id inv_VFXDirsConfig_def)
qed

subsection \<open>Associativity below the tree\<close>

lemma InstallOverride_merged_assoc:
  "InstallOverride_merged (InstallOverride_merged a b) c =
   InstallOverride_merged a (InstallOverride_merged b c)"
  by (auto simp: InstallOverride_merged_def)

lemma dict_update_assoc:
  "distinct (keys b) \<Longrightarrow>
   dict_update (dict_update a b) c = dict_update a (dict_update b c)"
  using dict_merge_assoc [of "\<lambda>_. True" "\<lambda>u v. v" b a c]
  by (simp add: dict_update_dict_merge list_all_iff)

lemma AppConfig_merged_assoc:
  assumes "inv_AppConfig a" "inv_AppConfig b" "inv_AppConfig c"
  shows "AppConfig_merged (AppConfig_merged a b) c = AppConfig_merged a (AppConfig_merged b c)"
proof -
  have ab: "inv_AppConfig (AppConfig_merged a b)" and bc: "inv_AppConfig (AppConfig_merged b c)"
    by (rule inv_AppConfig_merged)+
  have d: "distinct (keys (paths b))" using assms(2) by (simp add: inv_AppConfig_def)
  note e1 = AppConfig_merged_eq [OF assms(1) assms(2)]
  note e2 = AppConfig_merged_eq [OF assms(2) assms(3)]
  have l: "AppConfig_merged (AppConfig_merged a b) c =
        \<lparr>base = (if base c \<noteq> None then base c else if base b \<noteq> None then base b else base a),
         install = InstallOverride_merged (InstallOverride_merged (install a) (install b)) (install c),
         paths = dict_update (dict_update (paths a) (paths b)) (paths c)\<rparr>"
    unfolding AppConfig_merged_eq [OF ab assms(3)] unfolding e1 by simp
  have r: "AppConfig_merged a (AppConfig_merged b c) =
        \<lparr>base = (if base c \<noteq> None then base c else if base b \<noteq> None then base b else base a),
         install = InstallOverride_merged (install a) (InstallOverride_merged (install b) (install c)),
         paths = dict_update (paths a) (dict_update (paths b) (paths c))\<rparr>"
    unfolding AppConfig_merged_eq [OF assms(1) bc] unfolding e2 by auto
  show ?thesis
    unfolding l r by (simp add: InstallOverride_merged_assoc dict_update_assoc [OF d])
qed

lemma merge_apps_assoc:
  assumes "inv_VFXDirsConfig A" "inv_VFXDirsConfig B" "inv_VFXDirsConfig C"
  shows "merge_apps (merge_apps (apps A) (apps B)) (apps C) =
         merge_apps (apps A) (merge_apps (apps B) (apps C))"
proof -
  have "dict_merge AppConfig_merged (apps A) (dict_merge AppConfig_merged (apps B) (apps C)) =
        dict_merge AppConfig_merged (dict_merge AppConfig_merged (apps A) (apps B)) (apps C)"
    using assms
    by (intro dict_merge_assoc [where P = inv_AppConfig])
       (simp_all add: AppConfig_merged_assoc inv_AppConfig_merged inv_VFXDirsConfig_def)
  then show ?thesis by (simp add: merge_apps_dict_merge)
qed

subsection \<open>Merging: fields, identity, associativity\<close>

text \<open>
  C1. \<^verbatim>\<open>lower.merged(higher)\<close> on two application configurations: the merged base,
  install root and install executable are each the higher value when it is present and
  the lower value otherwise; the keys of the merged paths are the keys of both sides;
  a key of the higher side maps to the higher value, and any other key keeps the lower
  value.
\<close>

theorem AppConfig_merged_fields:
  assumes "inv_AppConfig lo" and "inv_AppConfig hi"
  shows "base (AppConfig_merged lo hi) =
           (case base hi of Some b \<Rightarrow> Some b | None \<Rightarrow> base lo) \<and>
         root (install (AppConfig_merged lo hi)) =
           (case root (install hi) of Some r \<Rightarrow> Some r | None \<Rightarrow> root (install lo)) \<and>
         executable (install (AppConfig_merged lo hi)) =
           (case executable (install hi) of
              Some x \<Rightarrow> Some x
            | None \<Rightarrow> executable (install lo)) \<and>
         set (keys (paths (AppConfig_merged lo hi))) =
           set (keys (paths lo)) \<union> set (keys (paths hi)) \<and>
         distinct (keys (paths (AppConfig_merged lo hi))) \<and>
         (\<forall>k. dict_get (paths (AppConfig_merged lo hi)) k =
            (case dict_get (paths hi) k of
               Some v \<Rightarrow> Some v
             | None \<Rightarrow> dict_get (paths lo) k))"
proof -
  have d: "distinct (keys (paths hi))" "distinct (keys (paths lo))"
    using assms by (simp_all add: inv_AppConfig_def)
  show ?thesis
    unfolding AppConfig_merged_eq [OF assms]
    by (auto simp: InstallOverride_merged_def keys_dict_update distinct_dict_update d
        dict_get_def map_of_dict_update map_add_def split: option.splits)
qed

text \<open>
  C2. Merging a configuration tree with the empty tree \<^verbatim>\<open>VFXDirsConfig()\<close>, on either
  side, or with \<^verbatim>\<open>None\<close>, returns a tree equal to the original.
\<close>

theorem VFXDirsConfig_merged_identity:
  assumes "inv_VFXDirsConfig T"
  shows "VFXDirsConfig_init [] = Inr \<lparr>apps = []\<rparr> \<and>
         VFXDirsConfig_merged T (Some \<lparr>apps = []\<rparr>) = Inr T \<and>
         VFXDirsConfig_merged \<lparr>apps = []\<rparr> (Some T) = Inr T \<and>
         VFXDirsConfig_merged T None = Inr T \<and>
         VFXDirsConfig_eq T T"
proof -
  have e: "inv_VFXDirsConfig \<lparr>apps = []\<rparr>"
    by (simp add: inv_VFXDirsConfig_def keys_Nil)
  have "distinct (keys ([] @ apps T))" using assms by (simp add: inv_VFXDirsConfig_def)
  then have "dict_merge AppConfig_merged [] (apps T) = apps T"
    using dict_merge_fresh [of "[]" "apps T" AppConfig_merged] by simp
  then have "VFXDirsConfig_merged \<lparr>apps = []\<rparr> (Some T) = Inr T"
    by (simp add: VFXDirsConfig_merged_eq [OF e assms] merge_apps_dict_merge)
  moreover have "VFXDirsConfig_merged T (Some \<lparr>apps = []\<rparr>) = Inr T"
    by (simp add: VFXDirsConfig_merged_eq [OF assms e])
  moreover have "VFXDirsConfig_init [] = Inr \<lparr>apps = []\<rparr>"
    by (simp add: VFXDirsConfig_init_def)
  ultimately show ?thesis
    using assms by (simp add: VFXDirsConfig_merged_def VFXDirsConfig_eq_refl)
qed

text \<open>
  C3. Merging is associative: for three configuration trees, all four merges return,
  and \<^verbatim>\<open>A.merged(B).merged(C)\<close> equals \<^verbatim>\<open>A.merged(B.merged(C))\<close>, as values and under
  \<^verbatim>\<open>==\<close>.
\<close>

theorem VFXDirsConfig_merged_assoc:
  assumes "inv_VFXDirsConfig A" and "inv_VFXDirsConfig B" and "inv_VFXDirsConfig C"
  shows "\<exists>AB BC L R.
           VFXDirsConfig_merged A (Some B) = Inr AB \<and>
           VFXDirsConfig_merged AB (Some C) = Inr L \<and>
           VFXDirsConfig_merged B (Some C) = Inr BC \<and>
           VFXDirsConfig_merged A (Some BC) = Inr R \<and>
           L = R \<and> VFXDirsConfig_eq L R"
proof -
  let ?AB = "\<lparr>apps = merge_apps (apps A) (apps B)\<rparr>"
  let ?BC = "\<lparr>apps = merge_apps (apps B) (apps C)\<rparr>"
  let ?L = "\<lparr>apps = merge_apps (apps ?AB) (apps C)\<rparr>"
  let ?R = "\<lparr>apps = merge_apps (apps A) (apps ?BC)\<rparr>"
  have ab: "inv_VFXDirsConfig ?AB" using assms(1,2) by (rule inv_merge_apps)
  have bc: "inv_VFXDirsConfig ?BC" using assms(2,3) by (rule inv_merge_apps)
  have l: "inv_VFXDirsConfig ?L" using ab assms(3) by (rule inv_merge_apps)
  have eq: "?L = ?R" using merge_apps_assoc [OF assms] by simp
  have "VFXDirsConfig_merged A (Some B) = Inr ?AB"
    by (rule VFXDirsConfig_merged_eq [OF assms(1,2)])
  moreover have "VFXDirsConfig_merged ?AB (Some C) = Inr ?L"
    by (rule VFXDirsConfig_merged_eq [OF ab assms(3)])
  moreover have "VFXDirsConfig_merged B (Some C) = Inr ?BC"
    by (rule VFXDirsConfig_merged_eq [OF assms(2,3)])
  moreover have "VFXDirsConfig_merged A (Some ?BC) = Inr ?R"
    by (rule VFXDirsConfig_merged_eq [OF assms(1) bc])
  moreover have "VFXDirsConfig_eq ?L ?R"
    using VFXDirsConfig_eq_refl [OF l] eq by simp
  ultimately show ?thesis using eq by blast
qed

lemma inv_example_lower: "inv_AppConfig example_lower"
  by code_simp

lemma inv_example_higher: "inv_AppConfig example_higher"
  by code_simp

lemma inv_example_A: "inv_VFXDirsConfig example_A"
  by code_simp

lemma inv_example_B: "inv_VFXDirsConfig example_B"
  by code_simp

lemma inv_example_C: "inv_VFXDirsConfig example_C"
  by code_simp

theorem AppConfig_merged_fields_witness:
  "inv_AppConfig example_lower \<and> inv_AppConfig example_higher \<and>
   base (AppConfig_merged example_lower example_higher) = Some (Path_of_str ''/l'') \<and>
   root (install (AppConfig_merged example_lower example_higher)) = Some (Path_of_str ''/r'') \<and>
   executable (install (AppConfig_merged example_lower example_higher)) = Some (Path_of_str ''/x'') \<and>
   set (keys (paths (AppConfig_merged example_lower example_higher))) = {''cache'', ''data'', ''logs''} \<and>
   dict_get (paths (AppConfig_merged example_lower example_higher)) ''cache'' = Some (Path_of_str ''/c'') \<and>
   dict_get (paths (AppConfig_merged example_lower example_higher)) ''data'' = Some (Path_of_str ''/d'') \<and>
   dict_get (paths (AppConfig_merged example_lower example_higher)) ''logs'' = Some (Path_of_str ''/b'')"
proof -
  note t = AppConfig_merged_fields [OF inv_example_lower inv_example_higher]
  have "base example_higher = None" "base example_lower = Some (Path_of_str ''/l'')"
    "root (install example_higher) = None" "root (install example_lower) = Some (Path_of_str ''/r'')"
    "executable (install example_higher) = Some (Path_of_str ''/x'')"
    "keys (paths example_lower) = [''cache'', ''data'']"
    "keys (paths example_higher) = [''logs'', ''cache'']"
    "dict_get (paths example_higher) ''cache'' = Some (Path_of_str ''/c'')"
    "dict_get (paths example_higher) ''data'' = None"
    "dict_get (paths example_lower) ''data'' = Some (Path_of_str ''/d'')"
    "dict_get (paths example_higher) ''logs'' = Some (Path_of_str ''/b'')"
    by (simp_all add: example_lower_def example_higher_def dict_get_def keys_def)
  with t show ?thesis
    using inv_example_lower inv_example_higher by auto
qed

theorem VFXDirsConfig_merged_identity_witness:
  "inv_VFXDirsConfig example_B \<and>
   VFXDirsConfig_merged example_B (Some \<lparr>apps = []\<rparr>) = Inr example_B \<and>
   VFXDirsConfig_merged \<lparr>apps = []\<rparr> (Some example_B) = Inr example_B \<and>
   VFXDirsConfig_merged example_B None = Inr example_B \<and>
   VFXDirsConfig_eq example_B example_B"
  using VFXDirsConfig_merged_identity [OF inv_example_B] inv_example_B by simp

theorem VFXDirsConfig_merged_assoc_witness:
  "inv_VFXDirsConfig example_A \<and> inv_VFXDirsConfig example_B \<and> inv_VFXDirsConfig example_C \<and>
   (\<exists>AB BC L R.
      VFXDirsConfig_merged example_A (Some example_B) = Inr AB \<and>
      VFXDirsConfig_merged AB (Some example_C) = Inr L \<and>
      VFXDirsConfig_merged example_B (Some example_C) = Inr BC \<and>
      VFXDirsConfig_merged example_A (Some BC) = Inr R \<and>
      L = R \<and> VFXDirsConfig_eq L R)"
  using VFXDirsConfig_merged_assoc [OF inv_example_A inv_example_B inv_example_C]
    inv_example_A inv_example_B inv_example_C by simp

subsection \<open>Normalization\<close>

lemma strip_whitespace_around:
  assumes "list_all isspace w1" and "list_all isspace w2"
  shows "strip (w1 @ s @ w2) = strip s"
proof -
  have a: "dropWhile isspace (w1 @ s @ w2) = dropWhile isspace (s @ w2)"
    using assms(1) by (simp add: dropWhile_append2 list_all_iff)
  show ?thesis
  proof (cases "dropWhile isspace s = []")
    case True
    then have "\<forall>c \<in> set (s @ w2). isspace c"
      using assms(2) by (auto simp: list_all_iff)
    then have b: "dropWhile isspace (s @ w2) = []" by (simp del: set_append)
    show ?thesis unfolding strip_def a b True by simp
  next
    case False
    then obtain c where c: "c \<in> set s" "\<not> isspace c" by auto
    then have "dropWhile isspace (s @ w2) = dropWhile isspace s @ w2"
      by (simp add: dropWhile_append1)
    moreover have "dropWhile isspace (rev w2 @ rev (dropWhile isspace s)) =
          dropWhile isspace (rev (dropWhile isspace s))"
      by (rule dropWhile_append2) (use assms(2) in \<open>auto simp: list_all_iff\<close>)
    ultimately show ?thesis by (simp add: strip_def a)
  qed
qed

lemma normalize_key_case: "lower s = lower t \<Longrightarrow> normalize_key s = normalize_key t"
  by (metis normalize_key_def strip_lower)

lemma normalize_app_id_key:
  "normalize_app_id a =
     (if normalize_key a = [] then Inl (VFXDirsConfigError ''app_id cannot be empty'')
      else Inr (normalize_key a))"
  by (simp add: normalize_app_id_def normalize_key_def Let_def)

text \<open>
  C6. Normalization of keys and of application identifiers is idempotent, ignores case
  and surrounding whitespace, and sends \<^verbatim>\<open>" Scripts "\<close>, \<^verbatim>\<open>"scripts"\<close> and
  \<^verbatim>\<open>DirKey.SCRIPTS\<close> to the same value, so each of the three finds the same entry of
  \<^verbatim>\<open>AppConfig.paths\<close> and of \<^verbatim>\<open>VFXDirsConfig.apps\<close>.
\<close>

theorem normalization_idempotent_insensitive:
  "normalize_key (normalize_key k) = normalize_key k \<and>
   (normalize_app_id a = Inr n \<longrightarrow> normalize_app_id n = Inr n) \<and>
   (lower s = lower t \<longrightarrow>
      normalize_key s = normalize_key t \<and> normalize_app_id s = normalize_app_id t) \<and>
   (list_all isspace w1 \<and> list_all isspace w2 \<longrightarrow>
      normalize_key (w1 @ s @ w2) = normalize_key s \<and>
      normalize_app_id (w1 @ s @ w2) = normalize_app_id s) \<and>
   normalize_key '' Scripts '' = ''scripts'' \<and>
   normalize_key ''scripts'' = ''scripts'' \<and>
   normalize_key DirKey_SCRIPTS = ''scripts'' \<and>
   normalize_app_id '' Scripts '' = Inr ''scripts'' \<and>
   normalize_app_id ''scripts'' = Inr ''scripts'' \<and>
   normalize_app_id DirKey_SCRIPTS = Inr ''scripts'' \<and>
   AppConfig_path_override cfg '' Scripts '' = AppConfig_path_override cfg ''scripts'' \<and>
   AppConfig_path_override cfg DirKey_SCRIPTS = AppConfig_path_override cfg ''scripts'' \<and>
   VFXDirsConfig_app c '' Scripts '' = VFXDirsConfig_app c ''scripts'' \<and>
   VFXDirsConfig_app c DirKey_SCRIPTS = VFXDirsConfig_app c ''scripts'' \<and>
   AppConfig_path_override (AppConfig_init b i [('' Scripts '', p)]) DirKey_SCRIPTS = Some p"
proof -
  have k1: "normalize_key '' Scripts '' = ''scripts''" by code_simp
  have k2: "normalize_key ''scripts'' = ''scripts''" by code_simp
  have k3: "normalize_key DirKey_SCRIPTS = ''scripts''" by code_simp
  have i: "normalize_app_id a = Inr n \<longrightarrow> normalize_app_id n = Inr n"
    by (auto simp: normalize_app_id_key normalize_key_idem split: if_splits)
  have cs: "lower s = lower t \<longrightarrow>
      normalize_key s = normalize_key t \<and> normalize_app_id s = normalize_app_id t"
  proof
    assume "lower s = lower t"
    then have "normalize_key s = normalize_key t" by (rule normalize_key_case)
    then show "normalize_key s = normalize_key t \<and> normalize_app_id s = normalize_app_id t"
      by (simp add: normalize_app_id_key)
  qed
  have ws: "list_all isspace w1 \<and> list_all isspace w2 \<longrightarrow>
      normalize_key (w1 @ s @ w2) = normalize_key s \<and>
      normalize_app_id (w1 @ s @ w2) = normalize_app_id s"
    by (simp add: normalize_app_id_key normalize_key_def strip_whitespace_around)
  have po: "AppConfig_path_override (AppConfig_init b i [('' Scripts '', p)]) DirKey_SCRIPTS = Some p"
    by (simp add: AppConfig_path_override_def AppConfig_init_def k1 k3 dict_get_def)
  show ?thesis
    using i cs ws po
    by (simp add: normalize_key_idem k1 k2 k3 normalize_app_id_key
        AppConfig_path_override_def VFXDirsConfig_app_def)
qed

theorem normalization_idempotent_insensitive_witness:
  "normalize_app_id '' Maya '' = Inr ''maya'' \<and> normalize_app_id ''maya'' = Inr ''maya'' \<and>
   lower ''MAYA'' = lower ''Maya'' \<and> normalize_key ''MAYA'' = normalize_key ''Maya'' \<and>
   list_all isspace '' '' \<and> normalize_key ('' '' @ ''Logs'' @ '' '') = normalize_key ''Logs''"
proof -
  have a: "normalize_app_id '' Maya '' = Inr ''maya''" by code_simp
  have l: "lower ''MAYA'' = lower ''Maya''" by code_simp
  have w: "list_all isspace '' ''" by code_simp
  note t = normalization_idempotent_insensitive
    [where a = "'' Maya ''" and n = "''maya''" and s = "''MAYA''" and t = "''Maya''"]
  note u = normalization_idempotent_insensitive
    [where ?w1.0 = "'' ''" and ?w2.0 = "'' ''" and s = "''Logs''"]
  from t a have "normalize_app_id ''maya'' = Inr ''maya''" by blast
  moreover from t l have "normalize_key ''MAYA'' = normalize_key ''Maya''" by blast
  moreover from u w have "normalize_key ('' '' @ ''Logs'' @ '' '') = normalize_key ''Logs''" by blast
  ultimately show ?thesis using a l w by blast
qed

subsection \<open>Path expansion\<close>

lemma match_env_var_no_dollar: "c \<noteq> CHR ''$'' \<Longrightarrow> match_env_var (c # t) = None"
  by (simp add: match_env_var_def)

lemma expand_env_vars_prefix:
  "CHR ''$'' \<notin> set pre \<Longrightarrow> expand_env_vars (pre @ s) env_map = pre @ expand_env_vars s env_map"
  by (induction pre) (auto simp: match_env_var_no_dollar)

lemma takeWhile_run:
  assumes "list_all P name" and "rest = [] \<or> \<not> P (hd rest)"
  shows "takeWhile P (name @ rest) = name" and "dropWhile P (name @ rest) = rest"
proof -
  have r: "takeWhile P rest = []" "dropWhile P rest = rest"
    using assms(2) by (cases rest; simp)+
  show "takeWhile P (name @ rest) = name" "dropWhile P (name @ rest) = rest"
    using assms(1) r by (simp_all add: list_all_iff takeWhile_append2 dropWhile_append2)
qed

lemma match_env_var_plain:
  assumes "name \<noteq> []" and "list_all is_word_char name"
    and "rest = [] \<or> \<not> is_word_char (hd rest)"
  shows "match_env_var (CHR ''$'' # name @ rest) = Some (CHR ''$'' # name, name, rest)"
  using assms by (simp add: match_env_var_def takeWhile_run)

lemma brace_not_word: "\<not> is_word_char CHR ''{''"
  by code_simp

lemma match_env_var_braced:
  assumes "name \<noteq> []" and "CHR ''}'' \<notin> set name"
  shows "match_env_var (''${'' @ name @ ''}'' @ rest) = Some (''${'' @ name @ ''}'', name, rest)"
proof -
  have a: "list_all (\<lambda>x. x \<noteq> CHR ''}'') name"
    using assms(2) by (auto simp: list_all_iff)
  have "takeWhile (\<lambda>x. x \<noteq> CHR ''}'') (name @ CHR ''}'' # rest) = name"
    "dropWhile (\<lambda>x. x \<noteq> CHR ''}'') (name @ CHR ''}'' # rest) = CHR ''}'' # rest"
    by (rule takeWhile_run [OF a], simp)+
  then show ?thesis
    using assms(1) by (simp add: match_env_var_def brace_not_word)
qed

lemma expand_env_vars_plain:
  assumes "name \<noteq> []" and "list_all is_word_char name"
    and "rest = [] \<or> \<not> is_word_char (hd rest)"
  shows "expand_env_vars (CHR ''$'' # name @ rest) env_map =
         (case dict_get env_map name of None \<Rightarrow> CHR ''$'' # name | Some v \<Rightarrow> v) @
         expand_env_vars rest env_map"
  using assms(1) by (simp add: match_env_var_plain [OF assms] repl_def split: option.splits)

lemma expand_env_vars_braced:
  assumes "name \<noteq> []" and "CHR ''}'' \<notin> set name"
  shows "expand_env_vars (''${'' @ name @ ''}'' @ rest) env_map =
         (case dict_get env_map name of None \<Rightarrow> ''${'' @ name @ ''}'' | Some v \<Rightarrow> v) @
         expand_env_vars rest env_map"
proof -
  have "expand_env_vars (CHR ''$'' # (CHR ''{'' # name @ ''}'' @ rest)) env_map =
        repl env_map (''${'' @ name @ ''}'') name @ expand_env_vars rest env_map"
    using match_env_var_braced [OF assms, of rest] by simp
  then show ?thesis
    using assms(1) by (simp add: repl_def split: option.splits)
qed

lemma is_absolute_Path_of_str: "is_absolute (Path_of_str s) = startswith s ''/''"
  by (cases s) (auto simp: is_absolute_def Path_of_str_def splitroot_def startswith_def Let_def)

lemma parse_path_str:
  "parse_path (PStr s) env_map home_dir base_dir wh =
     (if strip s = [] then Inl (VFXDirsConfigError (wh @ '' cannot be an empty path''))
      else if startswith (expand_env_vars (expand_user (strip s) home_dir) env_map) ''/''
        then Inr (Path_of_str (expand_env_vars (expand_user (strip s) home_dir) env_map))
      else Inr (joinpath base_dir
                  (Path_of_str (expand_env_vars (expand_user (strip s) home_dir) env_map))))"
  by (simp add: parse_path_def Let_def is_absolute_Path_of_str)

text \<open>
  C4. A raw path string is trimmed, then expanded in this order: a leading \<^verbatim>\<open>~\<close> (alone or
  before a slash or a backslash) becomes the home directory; each \<^verbatim>\<open>$NAME\<close> and
  \<^verbatim>\<open>${NAME}\<close> becomes the value of the variable, or stays as written when the variable
  is unset; a result that is not absolute is joined under \<open>base_dir\<close>. With
  \<^verbatim>\<open>FOO=/opt/foo\<close> and the home \<^verbatim>\<open>/home/u\<close>: \<^verbatim>\<open>~/bar\<close> gives \<^verbatim>\<open>/home/u/bar\<close>, \<^verbatim>\<open>$FOO/x\<close> and
  \<^verbatim>\<open>${FOO}/x\<close> give \<^verbatim>\<open>/opt/foo/x\<close>, and \<^verbatim>\<open>$MISSING\<close> stays \<^verbatim>\<open>$MISSING\<close>.
\<close>

theorem parse_path_expansion:
  "expand_user ''~'' home_dir = str_of_Path home_dir \<and>
   (startswith v ''~/'' \<or> startswith v [CHR ''~'', backslash] \<longrightarrow>
      expand_user v home_dir = str_of_Path home_dir @ drop 1 v) \<and>
   (v \<noteq> ''~'' \<and> \<not> startswith v ''~/'' \<and> \<not> startswith v [CHR ''~'', backslash] \<longrightarrow>
      expand_user v home_dir = v) \<and>
   (CHR ''$'' \<notin> set pre \<longrightarrow>
      expand_env_vars (pre @ t) env_map = pre @ expand_env_vars t env_map) \<and>
   (name \<noteq> [] \<and> list_all is_word_char name \<and> (rest = [] \<or> \<not> is_word_char (hd rest)) \<longrightarrow>
      expand_env_vars (''$'' @ name @ rest) env_map =
        (case dict_get env_map name of None \<Rightarrow> ''$'' @ name | Some x \<Rightarrow> x) @
        expand_env_vars rest env_map) \<and>
   (name \<noteq> [] \<and> CHR ''}'' \<notin> set name \<longrightarrow>
      expand_env_vars (''${'' @ name @ ''}'' @ rest) env_map =
        (case dict_get env_map name of None \<Rightarrow> ''${'' @ name @ ''}'' | Some x \<Rightarrow> x) @
        expand_env_vars rest env_map) \<and>
   (strip s \<noteq> [] \<longrightarrow>
      parse_path (PStr s) env_map home_dir base_dir wh =
        (if is_absolute (Path_of_str (expand_env_vars (expand_user (strip s) home_dir) env_map))
         then Inr (Path_of_str (expand_env_vars (expand_user (strip s) home_dir) env_map))
         else Inr \<lparr>path_root = path_root base_dir,
                   path_names = path_names base_dir @
                     path_names (Path_of_str
                       (expand_env_vars (expand_user (strip s) home_dir) env_map))\<rparr>)) \<and>
   parse_path (PStr ''~/bar'') [(''FOO'', ''/opt/foo'')] (Path_of_str ''/home/u'') base_dir wh =
     Inr (Path_of_str ''/home/u/bar'') \<and>
   parse_path (PStr ''$FOO/x'') [(''FOO'', ''/opt/foo'')] (Path_of_str ''/home/u'') base_dir wh =
     Inr (Path_of_str ''/opt/foo/x'') \<and>
   parse_path (PStr ''${FOO}/x'') [(''FOO'', ''/opt/foo'')] (Path_of_str ''/home/u'') base_dir wh =
     Inr (Path_of_str ''/opt/foo/x'') \<and>
   expand_env_vars (expand_user ''$MISSING'' (Path_of_str ''/home/u'')) [(''FOO'', ''/opt/foo'')] =
     ''$MISSING'' \<and>
   parse_path (PStr ''$MISSING'') [(''FOO'', ''/opt/foo'')] (Path_of_str ''/home/u'') base_dir wh =
     Inr (joinpath base_dir (Path_of_str ''$MISSING''))"
proof -
  have u1: "expand_user ''~'' home_dir = str_of_Path home_dir"
    by (simp add: expand_user_def)
  have u2: "startswith v ''~/'' \<or> startswith v [CHR ''~'', backslash] \<longrightarrow>
      expand_user v home_dir = str_of_Path home_dir @ drop 1 v"
    by (auto simp: expand_user_def startswith_def)
  have u3: "v \<noteq> ''~'' \<and> \<not> startswith v ''~/'' \<and> \<not> startswith v [CHR ''~'', backslash] \<longrightarrow>
      expand_user v home_dir = v"
    by (simp add: expand_user_def)
  have e1: "CHR ''$'' \<notin> set pre \<longrightarrow>
      expand_env_vars (pre @ t) env_map = pre @ expand_env_vars t env_map"
    by (simp add: expand_env_vars_prefix)
  have e2: "name \<noteq> [] \<and> list_all is_word_char name \<and> (rest = [] \<or> \<not> is_word_char (hd rest)) \<longrightarrow>
      expand_env_vars (''$'' @ name @ rest) env_map =
        (case dict_get env_map name of None \<Rightarrow> ''$'' @ name | Some x \<Rightarrow> x) @
        expand_env_vars rest env_map"
    using expand_env_vars_plain [of name rest env_map]
    by (simp del: expand_env_vars.simps split: option.splits)
  have e3: "name \<noteq> [] \<and> CHR ''}'' \<notin> set name \<longrightarrow>
      expand_env_vars (''${'' @ name @ ''}'' @ rest) env_map =
        (case dict_get env_map name of None \<Rightarrow> ''${'' @ name @ ''}'' | Some x \<Rightarrow> x) @
        expand_env_vars rest env_map"
    using expand_env_vars_braced [of name rest env_map] by blast
  have p: "strip s \<noteq> [] \<longrightarrow>
      parse_path (PStr s) env_map home_dir base_dir wh =
        (if is_absolute (Path_of_str (expand_env_vars (expand_user (strip s) home_dir) env_map))
         then Inr (Path_of_str (expand_env_vars (expand_user (strip s) home_dir) env_map))
         else Inr \<lparr>path_root = path_root base_dir,
                   path_names = path_names base_dir @
                     path_names (Path_of_str
                       (expand_env_vars (expand_user (strip s) home_dir) env_map))\<rparr>)"
    by (simp add: parse_path_def Let_def joinpath_def is_absolute_def)
  have s1: "strip ''~/bar'' = ''~/bar''" "strip ''$FOO/x'' = ''$FOO/x''"
    "strip ''${FOO}/x'' = ''${FOO}/x''" "strip ''$MISSING'' = ''$MISSING''"
    by code_simp+
  have x1: "expand_env_vars (expand_user ''~/bar'' (Path_of_str ''/home/u'')) [(''FOO'', ''/opt/foo'')] =
      ''/home/u/bar''"
    by code_simp
  have x2: "expand_env_vars (expand_user ''$FOO/x'' (Path_of_str ''/home/u'')) [(''FOO'', ''/opt/foo'')] =
      ''/opt/foo/x''"
    by code_simp
  have x3: "expand_env_vars (expand_user ''${FOO}/x'' (Path_of_str ''/home/u'')) [(''FOO'', ''/opt/foo'')] =
      ''/opt/foo/x''"
    by code_simp
  have x4: "expand_env_vars (expand_user ''$MISSING'' (Path_of_str ''/home/u'')) [(''FOO'', ''/opt/foo'')] =
      ''$MISSING''"
    by code_simp
  have c1: "parse_path (PStr ''~/bar'') [(''FOO'', ''/opt/foo'')] (Path_of_str ''/home/u'') base_dir wh =
     Inr (Path_of_str ''/home/u/bar'')"
    by (simp add: parse_path_str s1 x1 startswith_def)
  have c2: "parse_path (PStr ''$FOO/x'') [(''FOO'', ''/opt/foo'')] (Path_of_str ''/home/u'') base_dir wh =
     Inr (Path_of_str ''/opt/foo/x'')"
    by (simp add: parse_path_str s1 x2 startswith_def)
  have c3: "parse_path (PStr ''${FOO}/x'') [(''FOO'', ''/opt/foo'')] (Path_of_str ''/home/u'') base_dir wh =
     Inr (Path_of_str ''/opt/foo/x'')"
    by (simp add: parse_path_str s1 x3 startswith_def)
  have c4: "parse_path (PStr ''$MISSING'') [(''FOO'', ''/opt/foo'')] (Path_of_str ''/home/u'') base_dir wh =
     Inr (joinpath base_dir (Path_of_str ''$MISSING''))"
    by (simp add: parse_path_str s1 x4 startswith_def)
  from u1 u2 u3 e1 e2 e3 p c1 c2 c3 x4 c4 show ?thesis
    by blast
qed

theorem parse_path_expansion_witness:
  "startswith ''~/x'' ''~/'' \<and>
   expand_user ''~/x'' (Path_of_str ''/home/u'') = ''/home/u/x'' \<and>
   expand_user ''a~'' (Path_of_str ''/home/u'') = ''a~'' \<and>
   expand_env_vars (''a/'' @ ''$B'') [(''B'', ''c'')] = ''a/'' @ expand_env_vars ''$B'' [(''B'', ''c'')] \<and>
   expand_env_vars (''$'' @ ''B'' @ ''/d'') [(''B'', ''c'')] = ''c'' @ expand_env_vars ''/d'' [(''B'', ''c'')] \<and>
   expand_env_vars (''${'' @ ''B'' @ ''}'' @ ''/d'') [(''B'', ''c'')] = ''c'' @ expand_env_vars ''/d'' [(''B'', ''c'')] \<and>
   strip ''rel/p'' \<noteq> [] \<and>
   parse_path (PStr ''rel/p'') [(''B'', ''c'')] (Path_of_str ''/home/u'') (Path_of_str ''/etc/vfx'') ''w'' =
     Inr (Path_of_str ''/etc/vfx/rel/p'')"
proof -
  note t = parse_path_expansion [where v = "''~/x''" and home_dir = "Path_of_str ''/home/u''"
      and pre = "''a/''" and t = "''$B''" and env_map = "[(''B'', ''c'')]" and name = "''B''"
      and rest = "''/d''" and s = "''rel/p''" and base_dir = "Path_of_str ''/etc/vfx''"
      and wh = "''w''"]
  note t2 = parse_path_expansion [where v = "''a~''" and home_dir = "Path_of_str ''/home/u''"]
  have h1: "startswith ''~/x'' ''~/''" by code_simp
  have h2: "''a~'' \<noteq> ''~'' \<and> \<not> startswith ''a~'' ''~/'' \<and> \<not> startswith ''a~'' [CHR ''~'', backslash]"
    by code_simp
  have h3: "CHR ''$'' \<notin> set ''a/''" by simp
  have h4: "''B'' \<noteq> [] \<and> list_all is_word_char ''B'' \<and> (''/d'' = [] \<or> \<not> is_word_char (hd ''/d''))"
    by code_simp
  have h5: "''B'' \<noteq> [] \<and> CHR ''}'' \<notin> set ''B''" by simp
  have h6: "strip ''rel/p'' \<noteq> []" by code_simp
  have v1: "str_of_Path (Path_of_str ''/home/u'') @ drop 1 ''~/x'' = ''/home/u/x''" by code_simp
  have v2: "dict_get [(''B'', ''c'')] ''B'' = Some ''c''" by code_simp
  have v3: "(if is_absolute (Path_of_str (expand_env_vars (expand_user (strip ''rel/p'') (Path_of_str ''/home/u'')) [(''B'', ''c'')]))
         then Inr (Path_of_str (expand_env_vars (expand_user (strip ''rel/p'') (Path_of_str ''/home/u'')) [(''B'', ''c'')]))
         else Inr \<lparr>path_root = path_root (Path_of_str ''/etc/vfx''),
                   path_names = path_names (Path_of_str ''/etc/vfx'') @
                     path_names (Path_of_str
                       (expand_env_vars (expand_user (strip ''rel/p'') (Path_of_str ''/home/u'')) [(''B'', ''c'')]))\<rparr>)
        = (Inr (Path_of_str ''/etc/vfx/rel/p'') :: error + Path)"
    by code_simp
  from t h1 have a1: "expand_user ''~/x'' (Path_of_str ''/home/u'') = ''/home/u/x''"
    using v1 by simp
  from t2 h2 have a2: "expand_user ''a~'' (Path_of_str ''/home/u'') = ''a~''"
    by blast
  from t h3 have a3: "expand_env_vars (''a/'' @ ''$B'') [(''B'', ''c'')] = ''a/'' @ expand_env_vars ''$B'' [(''B'', ''c'')]"
    by blast
  from t h4 have a4: "expand_env_vars (''$'' @ ''B'' @ ''/d'') [(''B'', ''c'')] = ''c'' @ expand_env_vars ''/d'' [(''B'', ''c'')]"
    using v2 by (metis option.simps(5))
  from t h5 have a5: "expand_env_vars (''${'' @ ''B'' @ ''}'' @ ''/d'') [(''B'', ''c'')] = ''c'' @ expand_env_vars ''/d'' [(''B'', ''c'')]"
    using v2 by (metis option.simps(5))
  from t h6 have a6: "parse_path (PStr ''rel/p'') [(''B'', ''c'')] (Path_of_str ''/home/u'') (Path_of_str ''/etc/vfx'') ''w'' =
     Inr (Path_of_str ''/etc/vfx/rel/p'')"
    using v3 by metis
  from h1 a1 a2 a3 a4 a5 h6 a6 show ?thesis by blast
qed

subsection \<open>The context\<close>

lemma Context_from_env_fields:
  assumes eq: "Context_from_env host env_arg os_name home_arg cwd_arg = Inr ctx"
  shows "(os ctx = linux \<longrightarrow>
            config_home ctx =
              env_path_or (env ctx) ''XDG_CONFIG_HOME''
                (joinpath (home ctx) (Path_of_str ''.config''))) \<and>
         (os ctx = macos \<longrightarrow>
            config_home ctx =
              joinpath (joinpath (home ctx) (Path_of_str ''Library''))
                (Path_of_str ''Application Support'') \<and>
            data_home ctx = config_home ctx) \<and>
         (os ctx = windows \<longrightarrow>
            config_home ctx =
              (case dict_get (env ctx) ''APPDATA'' of
                 None \<Rightarrow> joinpath (joinpath (home ctx) (Path_of_str ''AppData''))
                           (Path_of_str ''Roaming'')
               | Some a \<Rightarrow>
                   if a \<noteq> [] then Path_of_str a
                   else joinpath (joinpath (home ctx) (Path_of_str ''AppData''))
                          (Path_of_str ''Roaming'')) \<and>
            cache_home ctx =
              (case dict_get (env ctx) ''LOCALAPPDATA'' of
                 None \<Rightarrow> joinpath (joinpath (home ctx) (Path_of_str ''AppData''))
                           (Path_of_str ''Local'')
               | Some a \<Rightarrow>
                   if a \<noteq> [] then Path_of_str a
                   else joinpath (joinpath (home ctx) (Path_of_str ''AppData''))
                          (Path_of_str ''Local'')) \<and>
            data_home ctx = config_home ctx \<and>
            install_roots ctx =
              (if program_roots (env ctx) []
                    [''ProgramFiles'', ''ProgramW6432'', ''ProgramFiles(x86)''] \<noteq> []
               then program_roots (env ctx) []
                      [''ProgramFiles'', ''ProgramW6432'', ''ProgramFiles(x86)'']
               else [Path_of_str ''C:/Program Files'']))"
proof -
  let ?D = "case os_name of Some n \<Rightarrow> Inr n | None \<Rightarrow> detect_os_name host"
  let ?E = "case env_arg of None \<Rightarrow> os_environ host | Some e \<Rightarrow> e"
  let ?C = "case cwd_arg of Some c \<Rightarrow> Some c | None \<Rightarrow> Path_cwd host"
  obtain d where d: "?D = Inr d"
    using eq by (cases ?D) (simp_all add: Context_from_env_def Let_def)
  let ?H = "case home_arg of Some h \<Rightarrow> Inr h | None \<Rightarrow> home_from_env host d ?E"
  obtain h where h: "?H = Inr h"
    using eq by (cases ?H) (simp_all add: Context_from_env_def Let_def d)
  obtain c where c: "?C = Some c"
    using eq by (cases ?C) (simp_all add: Context_from_env_def Let_def d h)
  obtain t where t: "gettempdir host = Some t"
    using eq by (cases "gettempdir host") (simp_all add: Context_from_env_def Let_def d h c)
  note core = eq [unfolded Context_from_env_def Let_def d h c t sum.case option.case]
  show ?thesis
  proof (cases d)
    case windows
    from core have o: "os ctx = windows" and e: "env ctx = ?E" and hh: "home ctx = h"
      by (auto simp: windows)
    from core have f1: "config_home ctx =
        (case dict_get (env ctx) ''APPDATA'' of
           None \<Rightarrow> joinpath (joinpath (home ctx) (Path_of_str ''AppData'')) (Path_of_str ''Roaming'')
         | Some a \<Rightarrow>
             if a \<noteq> [] then Path_of_str a
             else joinpath (joinpath (home ctx) (Path_of_str ''AppData'')) (Path_of_str ''Roaming''))"
      unfolding e hh by (auto simp: windows)
    from core have f2: "cache_home ctx =
        (case dict_get (env ctx) ''LOCALAPPDATA'' of
           None \<Rightarrow> joinpath (joinpath (home ctx) (Path_of_str ''AppData'')) (Path_of_str ''Local'')
         | Some a \<Rightarrow>
             if a \<noteq> [] then Path_of_str a
             else joinpath (joinpath (home ctx) (Path_of_str ''AppData'')) (Path_of_str ''Local''))"
      unfolding e hh by (auto simp: windows)
    from core have f3: "data_home ctx = config_home ctx"
      by (auto simp: windows)
    from core have f4: "install_roots ctx =
        (if program_roots (env ctx) [] [''ProgramFiles'', ''ProgramW6432'', ''ProgramFiles(x86)''] \<noteq> []
         then program_roots (env ctx) [] [''ProgramFiles'', ''ProgramW6432'', ''ProgramFiles(x86)'']
         else [Path_of_str ''C:/Program Files''])"
      unfolding e by (auto simp del: program_roots.simps simp: windows)
    show ?thesis
      using o f1 f2 f3 f4 by (simp del: program_roots.simps)
  next
    case macos
    from core have o: "os ctx = macos" and e: "env ctx = ?E" and hh: "home ctx = h"
      by (auto simp: macos)
    from core have f1: "config_home ctx = joinpath (joinpath (home ctx) (Path_of_str ''Library''))
          (Path_of_str ''Application Support'')"
      unfolding hh by (auto simp: macos)
    from core have f2: "data_home ctx = config_home ctx"
      by (auto simp: macos)
    show ?thesis
      using o f1 f2 by simp
  next
    case linux
    from core have o: "os ctx = linux" and e: "env ctx = ?E" and hh: "home ctx = h"
      by (auto simp: linux)
    from core have f1: "config_home ctx =
          env_path_or (env ctx) ''XDG_CONFIG_HOME'' (joinpath (home ctx) (Path_of_str ''.config''))"
      unfolding e hh by (auto simp: linux)
    show ?thesis
      using o f1 by simp
  qed
qed

lemma joinpath_name:
  "path_root (Path_of_str n) = [] \<Longrightarrow>
   joinpath p (Path_of_str n) =
     \<lparr>path_root = path_root p, path_names = path_names p @ path_names (Path_of_str n)\<rparr>"
  by (simp add: joinpath_def)

lemma program_roots_acc:
  "program_roots env_map roots ks = roots @ program_roots env_map [] ks"
proof (induction ks arbitrary: roots)
  case Nil then show ?case by simp
next
  case (Cons k ks)
  show ?case
    using Cons.IH [of "roots @ [Path_of_str (the (dict_get env_map k))]"]
      Cons.IH [of "[Path_of_str (the (dict_get env_map k))]"] Cons.IH [of roots]
    by (auto split: option.splits)
qed

lemma program_roots_concat:
  "program_roots env_map [] ks =
     concat (map (\<lambda>key. case dict_get env_map key of
                          None \<Rightarrow> []
                        | Some v \<Rightarrow> if v \<noteq> [] then [Path_of_str v] else []) ks)"
proof (induction ks)
  case Nil then show ?case by simp
next
  case (Cons k ks)
  show ?case
    using Cons.IH program_roots_acc [of env_map "[Path_of_str (the (dict_get env_map k))]" ks]
    by (auto split: option.splits)
qed

lemma Context_from_env_args:
  assumes eq: "Context_from_env host env_arg os_name home_arg cwd_arg = Inr ctx"
  shows "(os_name = Some n \<longrightarrow> os ctx = n) \<and> (env_arg = Some e \<longrightarrow> env ctx = e) \<and>
         (env_arg = None \<longrightarrow> env ctx = os_environ host) \<and>
         (home_arg = Some hm \<longrightarrow> home ctx = hm)"
proof -
  let ?D = "case os_name of Some n \<Rightarrow> Inr n | None \<Rightarrow> detect_os_name host"
  let ?E = "case env_arg of None \<Rightarrow> os_environ host | Some e \<Rightarrow> e"
  let ?C = "case cwd_arg of Some c \<Rightarrow> Some c | None \<Rightarrow> Path_cwd host"
  obtain d where d: "?D = Inr d"
    using eq by (cases ?D) (simp_all add: Context_from_env_def Let_def)
  let ?H = "case home_arg of Some h \<Rightarrow> Inr h | None \<Rightarrow> home_from_env host d ?E"
  obtain h where h: "?H = Inr h"
    using eq by (cases ?H) (simp_all add: Context_from_env_def Let_def d)
  obtain c where c: "?C = Some c"
    using eq by (cases ?C) (simp_all add: Context_from_env_def Let_def d h)
  obtain t where t: "gettempdir host = Some t"
    using eq by (cases "gettempdir host") (simp_all add: Context_from_env_def Let_def d h c)
  note core = eq [unfolded Context_from_env_def Let_def d h c t sum.case option.case]
  have "os ctx = d \<and> env ctx = ?E \<and> home ctx = h"
    using core by (cases d) auto
  then show ?thesis
    using d h by (auto split: option.splits)
qed

lemma Context_from_env_total:
  "gettempdir host = Some t \<Longrightarrow>
   \<exists>ctx. Context_from_env host env_arg (Some n) (Some h) (Some c) = Inr ctx"
  by (cases n) (simp_all add: Context_from_env_def Let_def)

lemma Path_of_str_names:
  "Path_of_str ''.config'' = \<lparr>path_root = [], path_names = [''.config'']\<rparr>"
  "Path_of_str ''Library'' = \<lparr>path_root = [], path_names = [''Library'']\<rparr>"
  "Path_of_str ''Application Support'' = \<lparr>path_root = [], path_names = [''Application Support'']\<rparr>"
  "Path_of_str ''AppData'' = \<lparr>path_root = [], path_names = [''AppData'']\<rparr>"
  "Path_of_str ''Roaming'' = \<lparr>path_root = [], path_names = [''Roaming'']\<rparr>"
  "Path_of_str ''Local'' = \<lparr>path_root = [], path_names = [''Local'']\<rparr>"
  "Path_of_str [] = \<lparr>path_root = [], path_names = []\<rparr>"
  by code_simp+

lemma str_of_Path_appdata_roaming: "str_of_Path (Path_of_str appdata_roaming) = appdata_roaming"
  by code_simp

text \<open>
  C7. The context by operating system: on Linux with \<^verbatim>\<open>XDG_CONFIG_HOME\<close> unset the
  config home is \<^verbatim>\<open><home>/.config\<close>; on Windows with \<^verbatim>\<open>APPDATA\<close> set to
  \<^verbatim>\<open>C:\Users\u\AppData\Roaming\<close> the config home is the path of exactly that string; on
  macOS the config home and the data home are both
  \<^verbatim>\<open><home>/Library/Application Support\<close>.
\<close>

theorem Context_from_env_branches:
  assumes "Context_from_env host env_arg os_name home_arg cwd_arg = Inr ctx"
  shows "(os_name = Some n \<longrightarrow> os ctx = n) \<and>
         (env_arg = Some e \<longrightarrow> env ctx = e) \<and>
         (home_arg = Some hm \<longrightarrow> home ctx = hm) \<and>
         (os ctx = linux \<and> dict_get (env ctx) ''XDG_CONFIG_HOME'' = None \<longrightarrow>
            config_home ctx = joinpath (home ctx) (Path_of_str ''.config'') \<and>
            path_root (config_home ctx) = path_root (home ctx) \<and>
            path_names (config_home ctx) = path_names (home ctx) @ [''.config'']) \<and>
         (os ctx = windows \<and> dict_get (env ctx) ''APPDATA'' = Some appdata_roaming \<longrightarrow>
            config_home ctx = Path_of_str appdata_roaming \<and>
            str_of_Path (config_home ctx) = appdata_roaming) \<and>
         (os ctx = macos \<longrightarrow>
            config_home ctx = data_home ctx \<and>
            config_home ctx =
              joinpath (joinpath (home ctx) (Path_of_str ''Library''))
                (Path_of_str ''Application Support'') \<and>
            path_root (config_home ctx) = path_root (home ctx) \<and>
            path_names (config_home ctx) =
              path_names (home ctx) @ [''Library'', ''Application Support''])"
proof -
  note f = Context_from_env_fields [OF assms]
  note a = Context_from_env_args [OF assms, of n e hm]
  have ne: "appdata_roaming \<noteq> []" by (simp add: appdata_roaming_def)
  have l: "os ctx = linux \<and> dict_get (env ctx) ''XDG_CONFIG_HOME'' = None \<longrightarrow>
            config_home ctx = joinpath (home ctx) (Path_of_str ''.config'') \<and>
            path_root (config_home ctx) = path_root (home ctx) \<and>
            path_names (config_home ctx) = path_names (home ctx) @ [''.config'']"
    using f by (simp add: env_path_or_def joinpath_def Path_of_str_names)
  have w: "os ctx = windows \<and> dict_get (env ctx) ''APPDATA'' = Some appdata_roaming \<longrightarrow>
            config_home ctx = Path_of_str appdata_roaming \<and>
            str_of_Path (config_home ctx) = appdata_roaming"
    using f ne by (simp add: str_of_Path_appdata_roaming del: program_roots.simps)
  have m: "os ctx = macos \<longrightarrow>
            config_home ctx = data_home ctx \<and>
            config_home ctx =
              joinpath (joinpath (home ctx) (Path_of_str ''Library''))
                (Path_of_str ''Application Support'') \<and>
            path_root (config_home ctx) = path_root (home ctx) \<and>
            path_names (config_home ctx) =
              path_names (home ctx) @ [''Library'', ''Application Support'']"
    using f by (simp add: joinpath_def Path_of_str_names)
  from a l w m show ?thesis by blast
qed

theorem Context_from_env_branches_witness:
  "(\<exists>ctx. Context_from_env example_host (Some []) (Some linux) (Some (Path_of_str ''/home/u'')) None = Inr ctx \<and>
      os ctx = linux \<and> dict_get (env ctx) ''XDG_CONFIG_HOME'' = None \<and>
      config_home ctx = Path_of_str ''/home/u/.config'') \<and>
   (\<exists>ctx. Context_from_env example_host (Some [(''APPDATA'', appdata_roaming)]) (Some windows)
        (Some (Path_of_str ''/home/u'')) None = Inr ctx \<and>
      os ctx = windows \<and> dict_get (env ctx) ''APPDATA'' = Some appdata_roaming \<and>
      str_of_Path (config_home ctx) = appdata_roaming) \<and>
   (\<exists>ctx. Context_from_env example_host (Some []) (Some macos) (Some (Path_of_str ''/home/u'')) None = Inr ctx \<and>
      os ctx = macos \<and>
      config_home ctx = Path_of_str ''/home/u/Library/Application Support'' \<and>
      data_home ctx = Path_of_str ''/home/u/Library/Application Support'')"
proof -
  have t: "gettempdir example_host = Some ''/tmp''" "Path_cwd example_host = Some (Path_of_str ''/work'')"
    by (simp_all add: example_host_def)
  have p1: "joinpath (Path_of_str ''/home/u'') (Path_of_str ''.config'') = Path_of_str ''/home/u/.config''"
    by code_simp
  have p2: "joinpath (joinpath (Path_of_str ''/home/u'') (Path_of_str ''Library''))
       (Path_of_str ''Application Support'') = Path_of_str ''/home/u/Library/Application Support''"
    by code_simp
  obtain c1 where c1: "Context_from_env example_host (Some []) (Some linux)
      (Some (Path_of_str ''/home/u'')) None = Inr c1"
    by (simp add: Context_from_env_def Let_def t)
  obtain c2 where c2: "Context_from_env example_host (Some [(''APPDATA'', appdata_roaming)])
      (Some windows) (Some (Path_of_str ''/home/u'')) None = Inr c2"
    by (simp add: Context_from_env_def Let_def t del: program_roots.simps)
  obtain c3 where c3: "Context_from_env example_host (Some []) (Some macos)
      (Some (Path_of_str ''/home/u'')) None = Inr c3"
    by (simp add: Context_from_env_def Let_def t)
  note b1 = Context_from_env_branches [OF c1, of linux "[]" "Path_of_str ''/home/u''"]
  note b2 = Context_from_env_branches [OF c2, of windows "[(''APPDATA'', appdata_roaming)]"
      "Path_of_str ''/home/u''"]
  note b3 = Context_from_env_branches [OF c3, of macos "[]" "Path_of_str ''/home/u''"]
  have r1: "os c1 = linux \<and> dict_get (env c1) ''XDG_CONFIG_HOME'' = None \<and>
      config_home c1 = Path_of_str ''/home/u/.config''"
    using b1 p1 by (simp add: dict_get_def)
  have r2: "os c2 = windows \<and> dict_get (env c2) ''APPDATA'' = Some appdata_roaming \<and>
      str_of_Path (config_home c2) = appdata_roaming"
    using b2 by (simp add: dict_get_def str_of_Path_appdata_roaming)
  have r3: "os c3 = macos \<and>
      config_home c3 = Path_of_str ''/home/u/Library/Application Support'' \<and>
      data_home c3 = Path_of_str ''/home/u/Library/Application Support''"
    using b3 p2 by metis
  from c1 c2 c3 r1 r2 r3 show ?thesis by blast
qed

lemma joinpath_ne_empty: "joinpath p (Path_of_str ''.config'') \<noteq> Path_of_str []"
  by (simp add: joinpath_def Path_of_str_names)

text \<open>
  C10. A variable that is set to the empty string: on Windows \<^verbatim>\<open>APPDATA\<close>,
  \<^verbatim>\<open>LOCALAPPDATA\<close> and each program-files variable then count as absent, so the config
  home is \<^verbatim>\<open><home>/AppData/Roaming\<close>; on Linux an empty \<^verbatim>\<open>XDG_CONFIG_HOME\<close> is taken as
  it is, and the config home is the path of the empty string, not \<^verbatim>\<open><home>/.config\<close>.
\<close>

theorem Context_from_env_empty_variable:
  assumes "Context_from_env host env_arg os_name home_arg cwd_arg = Inr ctx"
  shows "(os ctx = windows \<and> dict_get (env ctx) ''APPDATA'' = Some [] \<longrightarrow>
            config_home ctx =
              joinpath (joinpath (home ctx) (Path_of_str ''AppData'')) (Path_of_str ''Roaming'') \<and>
            path_root (config_home ctx) = path_root (home ctx) \<and>
            path_names (config_home ctx) = path_names (home ctx) @ [''AppData'', ''Roaming'']) \<and>
         (os ctx = windows \<and> dict_get (env ctx) ''LOCALAPPDATA'' = Some [] \<longrightarrow>
            cache_home ctx =
              joinpath (joinpath (home ctx) (Path_of_str ''AppData'')) (Path_of_str ''Local'')) \<and>
         (os ctx = windows \<longrightarrow>
            install_roots ctx =
              (let roots =
                 concat (map (\<lambda>key. case dict_get (env ctx) key of
                                       None \<Rightarrow> []
                                     | Some v \<Rightarrow> if v \<noteq> [] then [Path_of_str v] else [])
                           [''ProgramFiles'', ''ProgramW6432'', ''ProgramFiles(x86)''])
               in if roots \<noteq> [] then roots else [Path_of_str ''C:/Program Files''])) \<and>
         (os ctx = linux \<and> dict_get (env ctx) ''XDG_CONFIG_HOME'' = Some [] \<longrightarrow>
            config_home ctx = Path_of_str [] \<and>
            str_of_Path (config_home ctx) = ''.'' \<and>
            config_home ctx \<noteq> joinpath (home ctx) (Path_of_str ''.config''))"
proof -
  note f = Context_from_env_fields [OF assms]
  have s: "str_of_Path (Path_of_str []) = ''.''" by code_simp
  have w1: "os ctx = windows \<and> dict_get (env ctx) ''APPDATA'' = Some [] \<longrightarrow>
            config_home ctx =
              joinpath (joinpath (home ctx) (Path_of_str ''AppData'')) (Path_of_str ''Roaming'') \<and>
            path_root (config_home ctx) = path_root (home ctx) \<and>
            path_names (config_home ctx) = path_names (home ctx) @ [''AppData'', ''Roaming'']"
    using f by (simp add: joinpath_def Path_of_str_names del: program_roots.simps)
  have w2: "os ctx = windows \<and> dict_get (env ctx) ''LOCALAPPDATA'' = Some [] \<longrightarrow>
            cache_home ctx =
              joinpath (joinpath (home ctx) (Path_of_str ''AppData'')) (Path_of_str ''Local'')"
    using f by (simp del: program_roots.simps)
  have w3: "os ctx = windows \<longrightarrow>
            install_roots ctx =
              (let roots =
                 concat (map (\<lambda>key. case dict_get (env ctx) key of
                                       None \<Rightarrow> []
                                     | Some v \<Rightarrow> if v \<noteq> [] then [Path_of_str v] else [])
                           [''ProgramFiles'', ''ProgramW6432'', ''ProgramFiles(x86)''])
               in if roots \<noteq> [] then roots else [Path_of_str ''C:/Program Files''])"
    using f unfolding Let_def program_roots_concat [symmetric]
    by (simp del: program_roots.simps)
  have l: "os ctx = linux \<and> dict_get (env ctx) ''XDG_CONFIG_HOME'' = Some [] \<longrightarrow>
            config_home ctx = Path_of_str [] \<and>
            str_of_Path (config_home ctx) = ''.'' \<and>
            config_home ctx \<noteq> joinpath (home ctx) (Path_of_str ''.config'')"
    using f joinpath_ne_empty [of "home ctx"] by (auto simp: env_path_or_def s)
  from w1 w2 w3 l show ?thesis by blast
qed

theorem Context_from_env_empty_variable_witness:
  "(\<exists>ctx. Context_from_env example_host
        (Some [(''APPDATA'', []), (''LOCALAPPDATA'', []), (''ProgramFiles'', [])]) (Some windows)
        (Some (Path_of_str ''/home/u'')) None = Inr ctx \<and>
      os ctx = windows \<and> dict_get (env ctx) ''APPDATA'' = Some [] \<and>
      dict_get (env ctx) ''LOCALAPPDATA'' = Some [] \<and>
      config_home ctx = Path_of_str ''/home/u/AppData/Roaming'' \<and>
      cache_home ctx = Path_of_str ''/home/u/AppData/Local'' \<and>
      install_roots ctx = [Path_of_str ''C:/Program Files'']) \<and>
   (\<exists>ctx. Context_from_env example_host (Some [(''XDG_CONFIG_HOME'', [])]) (Some linux)
        (Some (Path_of_str ''/home/u'')) None = Inr ctx \<and>
      os ctx = linux \<and> dict_get (env ctx) ''XDG_CONFIG_HOME'' = Some [] \<and>
      config_home ctx = Path_of_str [] \<and>
      config_home ctx \<noteq> joinpath (home ctx) (Path_of_str ''.config''))"
proof -
  have t: "gettempdir example_host = Some ''/tmp''" "Path_cwd example_host = Some (Path_of_str ''/work'')"
    by (simp_all add: example_host_def)
  have p1: "joinpath (joinpath (Path_of_str ''/home/u'') (Path_of_str ''AppData''))
      (Path_of_str ''Roaming'') = Path_of_str ''/home/u/AppData/Roaming''"
    by code_simp
  have p2: "joinpath (joinpath (Path_of_str ''/home/u'') (Path_of_str ''AppData''))
      (Path_of_str ''Local'') = Path_of_str ''/home/u/AppData/Local''"
    by code_simp
  let ?e = "[(''APPDATA'', []), (''LOCALAPPDATA'', []), (''ProgramFiles'', [])] :: (string, string) dict"
  have p3: "(let roots =
                 concat (map (\<lambda>key. case dict_get ?e key of
                                       None \<Rightarrow> []
                                     | Some v \<Rightarrow> if v \<noteq> [] then [Path_of_str v] else [])
                           [''ProgramFiles'', ''ProgramW6432'', ''ProgramFiles(x86)''])
               in if roots \<noteq> [] then roots else [Path_of_str ''C:/Program Files'']) =
            [Path_of_str ''C:/Program Files'']"
    by (simp add: dict_get_def)
  obtain c1 where c1: "Context_from_env example_host (Some ?e) (Some windows)
      (Some (Path_of_str ''/home/u'')) None = Inr c1"
    by (simp add: Context_from_env_def Let_def t del: program_roots.simps)
  obtain c2 where c2: "Context_from_env example_host (Some [(''XDG_CONFIG_HOME'', [])]) (Some linux)
      (Some (Path_of_str ''/home/u'')) None = Inr c2"
    by (simp add: Context_from_env_def Let_def t)
  note a1 = Context_from_env_args [OF c1, of windows ?e "Path_of_str ''/home/u''"]
  note a2 = Context_from_env_args [OF c2, of linux "[(''XDG_CONFIG_HOME'', [])]" "Path_of_str ''/home/u''"]
  note b1 = Context_from_env_empty_variable [OF c1]
  note b2 = Context_from_env_empty_variable [OF c2]
  have e1: "os c1 = windows" "env c1 = ?e" "home c1 = Path_of_str ''/home/u''"
    using a1 by simp_all
  have e2: "os c2 = linux" "env c2 = [(''XDG_CONFIG_HOME'', [])]"
    using a2 by simp_all
  have d1: "dict_get (env c1) ''APPDATA'' = Some []" "dict_get (env c1) ''LOCALAPPDATA'' = Some []"
    by (simp_all add: e1 dict_get_def)
  have d2: "dict_get (env c2) ''XDG_CONFIG_HOME'' = Some []"
    by (simp add: e2 dict_get_def)
  have r1: "config_home c1 = Path_of_str ''/home/u/AppData/Roaming'' \<and>
      cache_home c1 = Path_of_str ''/home/u/AppData/Local'' \<and>
      install_roots c1 = [Path_of_str ''C:/Program Files'']"
    using b1 e1(1) d1 p1 p2 p3 by (simp only: e1(2,3) simp_thms)
  have r2: "config_home c2 = Path_of_str [] \<and>
      config_home c2 \<noteq> joinpath (home c2) (Path_of_str ''.config'')"
    using b2 e2(1) d2 by blast
  from c1 c2 e1(1) e2(1) d1 d2 r1 r2 show ?thesis by blast
qed

subsection \<open>Rejection of malformed configurations\<close>




lemma message_table:
  "message (NotATable [''apps'']) = ''`apps` must be a TOML table or object''"
  "message (NotATable [''apps'', app_id]) =
     ''`apps.'' @ app_id @ ''` must be a TOML table or object''"
  "message (NotATable [''apps'', app_id, ''install'']) =
     ''`apps.'' @ app_id @ ''.install` must be a TOML table or object''"
  "message (NotATable [''apps'', app_id, ''paths'']) =
     ''`apps.'' @ app_id @ ''.paths` must be a TOML table or object''"
  by (simp_all add: render_def)

















text \<open>
  What \<^verbatim>\<open>or {}\<close> swallows: \<^verbatim>\<open>install = false\<close> is accepted, where \<^verbatim>\<open>install = true\<close> is
  rejected and \<^verbatim>\<open>apps = false\<close> is rejected too.
\<close>

lemma from_mapping_false_install:
  "swallowed (PBool False) \<and>
   from_mapping example_host
     (PTable [(''apps'', PTable [(''maya'', PTable [(''install'', PBool False)])])])
     (Path_of_str ''/etc/vfx'') None (Some example_ctx) =
     Inr \<lparr>apps = [(''maya'', \<lparr>base = None, install = \<lparr>root = None, executable = None\<rparr>,
                              paths = []\<rparr>)]\<rparr> \<and>
   from_mapping example_host
     (PTable [(''apps'', PTable [(''maya'', PTable [(''install'', PBool True)])])])
     (Path_of_str ''/etc/vfx'') None (Some example_ctx) =
     Inl (VFXDirsConfigError ''`apps.maya.install` must be a TOML table or object'') \<and>
   from_mapping example_host (PTable [(''apps'', PBool False)])
     (Path_of_str ''/etc/vfx'') None (Some example_ctx) =
     Inl (VFXDirsConfigError ''`apps` must be a TOML table or object'')"
  by code_simp

subsection \<open>Loading\<close>

text \<open>
  C8. \<^verbatim>\<open>load\<close> returns \<^verbatim>\<open>None\<close> for a file that does not exist, and merging with
  \<^verbatim>\<open>None\<close> changes nothing; it returns \<^verbatim>\<open>None\<close> in no other case. For a file that exists,
  every failure to read, to parse or to validate is raised.
\<close>

theorem load_missing_or_error:
  "(fs config_path = Missing \<longrightarrow>
      load host fs toml_loads config_path env_arg ctx_arg = Inr None \<and>
      VFXDirsConfig_merged T None = Inr T) \<and>
   (load host fs toml_loads config_path env_arg ctx_arg = Inr None \<longrightarrow>
      fs config_path = Missing) \<and>
   (fs config_path \<noteq> Missing \<and>
    from_file host fs toml_loads config_path env_arg ctx_arg = Inl e \<longrightarrow>
      load host fs toml_loads config_path env_arg ctx_arg = Inl e) \<and>
   (fs config_path = Inaccessible \<or> fs config_path = Unreadable \<longrightarrow>
      load host fs toml_loads config_path env_arg ctx_arg = Inl OSError) \<and>
   (fs config_path = Undecodable \<longrightarrow>
      load host fs toml_loads config_path env_arg ctx_arg = Inl UnicodeDecodeError) \<and>
   (fs config_path = Contents content \<and> toml_loads content = None \<longrightarrow>
      load host fs toml_loads config_path env_arg ctx_arg = Inl TOMLDecodeError) \<and>
   (fs config_path = Contents content \<and> toml_loads content = Some data \<and>
    from_mapping host data (Path_parent config_path) env_arg ctx_arg = Inl e \<longrightarrow>
      load host fs toml_loads config_path env_arg ctx_arg = Inl e) \<and>
   (fs config_path = Contents content \<and> toml_loads content = Some data \<and>
    from_mapping host data (Path_parent config_path) env_arg ctx_arg = Inr c \<longrightarrow>
      load host fs toml_loads config_path env_arg ctx_arg = Inr (Some c))"
proof -
  have a: "fs config_path = Missing \<longrightarrow>
      load host fs toml_loads config_path env_arg ctx_arg = Inr None \<and>
      VFXDirsConfig_merged T None = Inr T"
    by (simp add: load_def VFXDirsConfig_merged_def)
  have b: "load host fs toml_loads config_path env_arg ctx_arg = Inr None \<longrightarrow>
      fs config_path = Missing"
    by (simp add: load_def split: if_splits sum.splits)
  have c: "fs config_path \<noteq> Missing \<and>
    from_file host fs toml_loads config_path env_arg ctx_arg = Inl e \<longrightarrow>
      load host fs toml_loads config_path env_arg ctx_arg = Inl e"
    by (auto simp: load_def from_file_def)
  have d: "fs config_path = Inaccessible \<or> fs config_path = Unreadable \<longrightarrow>
      load host fs toml_loads config_path env_arg ctx_arg = Inl OSError"
    by (auto simp: load_def from_file_def)
  have f: "fs config_path = Undecodable \<longrightarrow>
      load host fs toml_loads config_path env_arg ctx_arg = Inl UnicodeDecodeError"
    by (simp add: load_def from_file_def)
  have g: "fs config_path = Contents content \<and> toml_loads content = None \<longrightarrow>
      load host fs toml_loads config_path env_arg ctx_arg = Inl TOMLDecodeError"
    by (simp add: load_def from_file_def)
  have h: "fs config_path = Contents content \<and> toml_loads content = Some data \<and>
    from_mapping host data (Path_parent config_path) env_arg ctx_arg = Inl e \<longrightarrow>
      load host fs toml_loads config_path env_arg ctx_arg = Inl e"
    by (simp add: load_def from_file_def)
  have i: "fs config_path = Contents content \<and> toml_loads content = Some data \<and>
    from_mapping host data (Path_parent config_path) env_arg ctx_arg = Inr c \<longrightarrow>
      load host fs toml_loads config_path env_arg ctx_arg = Inr (Some c)"
    by (simp add: load_def from_file_def)
  from a b c d f g h i show ?thesis by blast
qed

theorem load_missing_or_error_witness:
  "example_fs (Path_of_str ''/etc/vfx/none.toml'') = Missing \<and>
   load example_host example_fs example_loads (Path_of_str ''/etc/vfx/none.toml'') None
     (Some example_ctx) = Inr None \<and>
   example_fs (Path_of_str ''/etc/vfx/broken.toml'') = Contents ''apps ='' \<and>
   example_loads ''apps ='' = None \<and>
   load example_host example_fs example_loads (Path_of_str ''/etc/vfx/broken.toml'') None
     (Some example_ctx) = Inl TOMLDecodeError \<and>
   example_fs (Path_of_str ''/etc/vfx/config.toml'') = Contents ''apps = 1'' \<and>
   example_loads ''apps = 1'' = Some (PTable [(''apps'', PInt 1)]) \<and>
   load example_host example_fs example_loads (Path_of_str ''/etc/vfx/config.toml'') None
     (Some example_ctx) = Inl (VFXDirsConfigError ''`apps` must be a TOML table or object'') \<and>
   example_fs (Path_of_str ''/etc/vfx'') = Unreadable \<and>
   load example_host example_fs example_loads (Path_of_str ''/etc/vfx'') None
     (Some example_ctx) = Inl OSError \<and>
   example_fs (Path_of_str ''/etc/vfx/latin1.toml'') = Undecodable \<and>
   load example_host example_fs example_loads (Path_of_str ''/etc/vfx/latin1.toml'') None
     (Some example_ctx) = Inl UnicodeDecodeError \<and>
   example_fs (Path_of_str ''/etc/vfx/empty.toml'') = Contents [] \<and>
   example_loads [] = Some (PTable []) \<and>
   load example_host example_fs example_loads (Path_of_str ''/etc/vfx/empty.toml'') None
     (Some example_ctx) = Inr (Some \<lparr>apps = []\<rparr>)"
proof -
  have f1: "example_fs (Path_of_str ''/etc/vfx/none.toml'') = Missing"
    by code_simp
  have f2: "example_fs (Path_of_str ''/etc/vfx/broken.toml'') = Contents ''apps =''"
    by code_simp
  have f3: "example_fs (Path_of_str ''/etc/vfx/config.toml'') = Contents ''apps = 1''"
    by code_simp
  have f4: "example_fs (Path_of_str ''/etc/vfx'') = Unreadable"
    by code_simp
  have f5: "example_fs (Path_of_str ''/etc/vfx/latin1.toml'') = Undecodable"
    by code_simp
  have f6: "example_fs (Path_of_str ''/etc/vfx/empty.toml'') = Contents []"
    by code_simp
  have l2: "example_loads ''apps ='' = None"
    by code_simp
  have l3: "example_loads ''apps = 1'' = Some (PTable [(''apps'', PInt 1)])"
    by code_simp
  have l6: "example_loads [] = Some (PTable [])"
    by code_simp
  have m3: "from_mapping example_host (PTable [(''apps'', PInt 1)])
      (Path_parent (Path_of_str ''/etc/vfx/config.toml'')) None (Some example_ctx) =
      Inl (VFXDirsConfigError ''`apps` must be a TOML table or object'')"
    by code_simp
  have m6: "from_mapping example_host (PTable [])
      (Path_parent (Path_of_str ''/etc/vfx/empty.toml'')) None (Some example_ctx) =
      Inr \<lparr>apps = []\<rparr>"
    by code_simp
  note t1 = load_missing_or_error [where fs = example_fs and toml_loads = example_loads
      and config_path = "Path_of_str ''/etc/vfx/none.toml''" and host = example_host
      and env_arg = None and ctx_arg = "Some example_ctx"]
  note t2 = load_missing_or_error [where fs = example_fs and toml_loads = example_loads
      and config_path = "Path_of_str ''/etc/vfx/broken.toml''" and host = example_host
      and env_arg = None and ctx_arg = "Some example_ctx" and content = "''apps =''"]
  note t3 = load_missing_or_error [where fs = example_fs and toml_loads = example_loads
      and config_path = "Path_of_str ''/etc/vfx/config.toml''" and host = example_host
      and env_arg = None and ctx_arg = "Some example_ctx" and content = "''apps = 1''"
      and data = "PTable [(''apps'', PInt 1)]"
      and e = "VFXDirsConfigError ''`apps` must be a TOML table or object''"]
  note t4 = load_missing_or_error [where fs = example_fs and toml_loads = example_loads
      and config_path = "Path_of_str ''/etc/vfx''" and host = example_host
      and env_arg = None and ctx_arg = "Some example_ctx"]
  note t5 = load_missing_or_error [where fs = example_fs and toml_loads = example_loads
      and config_path = "Path_of_str ''/etc/vfx/latin1.toml''" and host = example_host
      and env_arg = None and ctx_arg = "Some example_ctx"]
  note t6 = load_missing_or_error [where fs = example_fs and toml_loads = example_loads
      and config_path = "Path_of_str ''/etc/vfx/empty.toml''" and host = example_host
      and env_arg = None and ctx_arg = "Some example_ctx" and content = "[]"
      and data = "PTable []" and c = "\<lparr>apps = []\<rparr>"]
  from t1 f1 have r1: "load example_host example_fs example_loads
      (Path_of_str ''/etc/vfx/none.toml'') None (Some example_ctx) = Inr None"
    by blast
  from t2 f2 l2 have r2: "load example_host example_fs example_loads
      (Path_of_str ''/etc/vfx/broken.toml'') None (Some example_ctx) = Inl TOMLDecodeError"
    by blast
  from t3 f3 l3 m3 have r3: "load example_host example_fs example_loads
      (Path_of_str ''/etc/vfx/config.toml'') None (Some example_ctx) =
      Inl (VFXDirsConfigError ''`apps` must be a TOML table or object'')"
    by blast
  from t4 f4 have r4: "load example_host example_fs example_loads
      (Path_of_str ''/etc/vfx'') None (Some example_ctx) = Inl OSError"
    by blast
  from t5 f5 have r5: "load example_host example_fs example_loads
      (Path_of_str ''/etc/vfx/latin1.toml'') None (Some example_ctx) = Inl UnicodeDecodeError"
    by blast
  from t6 f6 l6 m6 have r6: "load example_host example_fs example_loads
      (Path_of_str ''/etc/vfx/empty.toml'') None (Some example_ctx) = Inr (Some \<lparr>apps = []\<rparr>)"
    by blast
  from f1 f2 f3 f4 f5 f6 l2 l3 l6 r1 r2 r3 r4 r5 r6 show ?thesis by blast
qed

subsection \<open>Reading the heap\<close>

lemma get_paths_D: "get_paths h a = Inr d \<Longrightarrow> a < length h \<and> h ! a = PathsDict d"
  by (auto simp: get_paths_def split: if_splits obj.splits)

lemma get_apps_D: "get_apps h a = Inr d \<Longrightarrow> a < length h \<and> h ! a = AppsDict d"
  by (auto simp: get_apps_def split: if_splits obj.splits)

lemma get_app_D: "get_app h a = Inr (b, i, p) \<Longrightarrow> a < length h \<and> h ! a = AppObj b i p"
  by (auto simp: get_app_def split: if_splits obj.splits)

lemma get_cfg_D: "get_cfg h a = Inr d \<Longrightarrow> a < length h \<and> h ! a = CfgObj d"
  by (auto simp: get_cfg_def split: if_splits obj.splits)

lemma get_paths_I: "a < length h \<Longrightarrow> h ! a = PathsDict d \<Longrightarrow> get_paths h a = Inr d"
  by (simp add: get_paths_def)

lemma get_apps_I: "a < length h \<Longrightarrow> h ! a = AppsDict d \<Longrightarrow> get_apps h a = Inr d"
  by (simp add: get_apps_def)

lemma get_app_I: "a < length h \<Longrightarrow> h ! a = AppObj b i p \<Longrightarrow> get_app h a = Inr (b, i, p)"
  by (simp add: get_app_def)

lemma get_cfg_I: "a < length h \<Longrightarrow> h ! a = CfgObj d \<Longrightarrow> get_cfg h a = Inr d"
  by (simp add: get_cfg_def)

lemma get_paths_append: "get_paths h a = Inr d \<Longrightarrow> get_paths (h @ e) a = Inr d"
  by (drule get_paths_D) (simp add: get_paths_def nth_append)

lemma get_apps_append: "get_apps h a = Inr d \<Longrightarrow> get_apps (h @ e) a = Inr d"
  by (drule get_apps_D) (simp add: get_apps_def nth_append)

lemma get_app_append: "get_app h a = Inr x \<Longrightarrow> get_app (h @ e) a = Inr x"
  by (cases x) (auto dest!: get_app_D simp: get_app_def nth_append)

lemma get_cfg_append: "get_cfg h a = Inr d \<Longrightarrow> get_cfg (h @ e) a = Inr d"
  by (drule get_cfg_D) (simp add: get_cfg_def nth_append)

lemma get_paths_update_apps:
  "get_paths h a = Inr d \<Longrightarrow> get_apps h m = Inr x \<Longrightarrow> get_paths (h[m := AppsDict y]) a = Inr d"
proof -
  assume a: "get_paths h a = Inr d" and m: "get_apps h m = Inr x"
  from a have "a < length h" "h ! a = PathsDict d" by (auto dest: get_paths_D)
  moreover from m have "m < length h" "h ! m = AppsDict x" by (auto dest: get_apps_D)
  ultimately show ?thesis by (auto simp: get_paths_def nth_list_update)
qed

lemma get_app_update_apps:
  "get_app h a = Inr t \<Longrightarrow> get_apps h m = Inr x \<Longrightarrow> get_app (h[m := AppsDict y]) a = Inr t"
proof -
  assume a: "get_app h a = Inr t" and m: "get_apps h m = Inr x"
  obtain b i p where t: "t = (b, i, p)" by (cases t)
  from a t have "a < length h" "h ! a = AppObj b i p" by (auto dest: get_app_D)
  moreover from m have "m < length h" "h ! m = AppsDict x" by (auto dest: get_apps_D)
  ultimately show ?thesis by (auto simp: get_app_def nth_list_update t)
qed

subsection \<open>The loops in closed form\<close>

lemma update_h_eq:
  "get_paths h m = Inr d \<Longrightarrow> update_h m items h = Inr (h[m := PathsDict (dict_update d items)])"
proof (induction items arbitrary: h d)
  case Nil
  then have "h ! m = PathsDict d" by (auto dest: get_paths_D)
  then have "h[m := PathsDict d] = h" by (metis list_update_id)
  then show ?case by simp
next
  case (Cons x items)
  obtain k v where x: "x = (k, v)" by (cases x)
  from Cons.prems have m: "m < length h" by (auto dest: get_paths_D)
  have g: "get_paths (h[m := PathsDict (dict_set d k v)]) m = Inr (dict_set d k v)"
    using m by (simp add: get_paths_def)
  show ?case unfolding x
    using Cons.IH [OF g] Cons.prems by simp
qed

lemma normalize_paths_h_eq:
  "get_paths h n = Inr d \<Longrightarrow>
   normalize_paths_h n items h = Inr (h[n := PathsDict (normalize_paths d items)])"
proof (induction items arbitrary: h d)
  case Nil
  then have "h ! n = PathsDict d" by (auto dest: get_paths_D)
  then have "h[n := PathsDict d] = h" by (metis list_update_id)
  then show ?case by simp
next
  case (Cons x items)
  obtain k v where x: "x = (k, v)" by (cases x)
  from Cons.prems have m: "n < length h" by (auto dest: get_paths_D)
  have g: "get_paths (h[n := PathsDict (dict_set d (normalize_key k) v)]) n =
      Inr (dict_set d (normalize_key k) v)"
    using m by (simp add: get_paths_def)
  show ?case unfolding x
    using Cons.IH [OF g] Cons.prems by simp
qed

lemma normalize_apps_h_eq:
  "get_apps h n = Inr d \<Longrightarrow> list_all (\<lambda>k. normalize_app_id k = Inr k) (keys items) \<Longrightarrow>
   normalize_apps_h n items h = Inr (h[n := AppsDict (dict_update d items)])"
proof (induction items arbitrary: h d)
  case Nil
  then have "h ! n = AppsDict d" by (auto dest: get_apps_D)
  then have "h[n := AppsDict d] = h" by (metis list_update_id)
  then show ?case by simp
next
  case (Cons x items)
  obtain k v where x: "x = (k, v)" by (cases x)
  from Cons.prems have m: "n < length h" by (auto dest: get_apps_D)
  from Cons.prems have nk: "normalize_app_id k = Inr k"
    and rest: "list_all (\<lambda>k. normalize_app_id k = Inr k) (keys items)"
    unfolding x by (simp_all add: keys_Cons)
  have g: "get_apps (h[n := AppsDict (dict_set d k v)]) n = Inr (dict_set d k v)"
    using m by (simp add: get_apps_def)
  show ?case unfolding x
    using Cons.IH [OF g rest] Cons.prems(1) nk by simp
qed

lemma AppConfig_new_eq:
  assumes "get_paths h p = Inr items"
  shows "AppConfig_new b i p h =
         Inr (length h,
              h @ [AppObj b i (Suc (length h)), PathsDict (normalize_paths [] items),
                   PathsDict items])"
proof -
  let ?h3 = "h @ [AppObj b i p, PathsDict [], PathsDict items]"
  have g: "get_paths ?h3 (Suc (length h)) = Inr []"
    by (simp add: get_paths_def nth_append)
  have "normalize_paths_h (Suc (length h)) items ?h3 =
        Inr (?h3[Suc (length h) := PathsDict (normalize_paths [] items)])"
    by (rule normalize_paths_h_eq [OF g])
  then show ?thesis
    using assms by (simp add: AppConfig_new_def alloc_def list_update_append)
qed

lemma AppConfig_merged_h_eq:
  assumes "get_app h s = Inr (sb, si, sp)" and "get_paths h sp = Inr sitems"
    and "get_app h g = Inr (gb, gi, gp)" and "get_paths h gp = Inr gitems"
  shows "AppConfig_merged_h s g h =
         Inr (Suc (length h),
              h @ [PathsDict (dict_update sitems gitems),
                   AppObj (if gb \<noteq> None then gb else sb) (InstallOverride_merged si gi)
                     (Suc (Suc (length h))),
                   PathsDict (normalize_paths [] (dict_update sitems gitems)),
                   PathsDict (dict_update sitems gitems)])"
proof -
  let ?h1 = "h @ [PathsDict sitems]"
  let ?h2 = "h @ [PathsDict (dict_update sitems gitems)]"
  have a: "get_app ?h1 g = Inr (gb, gi, gp)" "get_paths ?h1 gp = Inr gitems"
    using assms by (simp_all add: get_app_append get_paths_append)
  have m: "get_paths ?h1 (length h) = Inr sitems"
    by (simp add: get_paths_def)
  have u: "update_h (length h) gitems ?h1 = Inr ?h2"
    using update_h_eq [OF m, of gitems] by simp
  have p: "get_paths ?h2 (length h) = Inr (dict_update sitems gitems)"
    by (simp add: get_paths_def)
  show ?thesis
    using assms(1,2) a u AppConfig_new_eq [OF p]
    by (simp add: AppConfig_merged_h_def alloc_def)
qed

subsection \<open>What the addresses stand for\<close>

lemma abs_app_D:
  "abs_app h a = Some v \<Longrightarrow>
   \<exists>p. get_app h a = Inr (base v, install v, p) \<and> get_paths h p = Inr (paths v)"
  by (auto simp: abs_app_def split: sum.splits prod.splits)

lemma abs_app_I:
  "get_app h a = Inr (b, i, p) \<Longrightarrow> get_paths h p = Inr d \<Longrightarrow>
   abs_app h a = Some \<lparr>base = b, install = i, paths = d\<rparr>"
  by (simp add: abs_app_def)

lemma abs_app_append: "abs_app h a = Some v \<Longrightarrow> abs_app (h @ e) a = Some v"
proof -
  assume "abs_app h a = Some v"
  then obtain p where "get_app h a = Inr (base v, install v, p)" "get_paths h p = Inr (paths v)"
    by (auto dest: abs_app_D)
  then have "abs_app (h @ e) a = Some \<lparr>base = base v, install = install v, paths = paths v\<rparr>"
    by (intro abs_app_I get_app_append get_paths_append)
  then show ?thesis by simp
qed

lemma abs_app_update_apps:
  "abs_app h a = Some v \<Longrightarrow> get_apps h m = Inr x \<Longrightarrow> abs_app (h[m := AppsDict y]) a = Some v"
proof -
  assume "abs_app h a = Some v" and m: "get_apps h m = Inr x"
  then obtain p where "get_app h a = Inr (base v, install v, p)" "get_paths h p = Inr (paths v)"
    by (auto dest: abs_app_D)
  then have "abs_app (h[m := AppsDict y]) a =
      Some \<lparr>base = base v, install = install v, paths = paths v\<rparr>"
    using m by (intro abs_app_I get_app_update_apps get_paths_update_apps)
  then show ?thesis by simp
qed

lemma abs_apps_stable:
  assumes "\<And>a v. abs_app h a = Some v \<Longrightarrow> abs_app h' a = Some v"
  shows "abs_apps h d = Some D \<Longrightarrow> abs_apps h' d = Some D"
proof (induction d arbitrary: D)
  case Nil
  then show ?case by simp
next
  case (Cons x d)
  obtain k a where x: "x = (k, a)" by (cases x)
  from Cons.prems obtain v vs where v: "abs_app h a = Some v" and vs: "abs_apps h d = Some vs"
    and D: "D = (k, v) # vs"
    unfolding x by (auto split: option.splits)
  show ?case unfolding x
    using assms [OF v] Cons.IH [OF vs] D by simp
qed

lemma abs_apps_append: "abs_apps h d = Some D \<Longrightarrow> abs_apps (h @ e) d = Some D"
  by (erule abs_apps_stable [rotated]) (rule abs_app_append)

lemma abs_apps_update_apps:
  "abs_apps h d = Some D \<Longrightarrow> get_apps h m = Inr x \<Longrightarrow> abs_apps (h[m := AppsDict y]) d = Some D"
  by (erule abs_apps_stable [rotated]) (rule abs_app_update_apps)

lemma abs_apps_keys: "abs_apps h d = Some D \<Longrightarrow> keys D = keys d"
proof (induction d arbitrary: D)
  case Nil
  then show ?case by (simp add: keys_def)
next
  case (Cons x d)
  obtain k a where x: "x = (k, a)" by (cases x)
  from Cons.prems obtain v vs where vs: "abs_apps h d = Some vs" and D: "D = (k, v) # vs"
    unfolding x by (auto split: option.splits)
  show ?case unfolding x D using Cons.IH [OF vs] by (simp add: keys_Cons)
qed

lemma abs_apps_lookup_None:
  "abs_apps h d = Some D \<Longrightarrow> dict_get d k = None \<Longrightarrow> dict_get D k = None"
proof -
  assume a: "abs_apps h d = Some D" and n: "dict_get d k = None"
  from n have "k \<notin> set (keys d)" by (simp add: dict_get_def keys_def map_of_eq_None_iff)
  then have "k \<notin> set (keys D)" using abs_apps_keys [OF a] by simp
  then show ?thesis by (simp add: dict_get_def keys_def map_of_eq_None_iff)
qed

lemma abs_apps_lookup_Some:
  "abs_apps h d = Some D \<Longrightarrow> dict_get d k = Some a \<Longrightarrow>
   \<exists>v. abs_app h a = Some v \<and> dict_get D k = Some v"
proof (induction d arbitrary: D)
  case Nil
  then show ?case by (simp add: dict_get_def)
next
  case (Cons x d)
  obtain k' a' where x: "x = (k', a')" by (cases x)
  from Cons.prems(1) obtain v vs where v: "abs_app h a' = Some v" and vs: "abs_apps h d = Some vs"
    and D: "D = (k', v) # vs"
    unfolding x by (auto split: option.splits)
  show ?case
  proof (cases "k' = k")
    case True
    then show ?thesis using Cons.prems(2) v unfolding x D by (simp add: dict_get_def)
  next
    case False
    then have "dict_get d k = Some a" using Cons.prems(2) unfolding x by (simp add: dict_get_def)
    from Cons.IH [OF vs this] show ?thesis using False unfolding D by (simp add: dict_get_def)
  qed
qed

lemma abs_apps_dict_set:
  "abs_apps h d = Some D \<Longrightarrow> abs_app h a = Some v \<Longrightarrow>
   abs_apps h (dict_set d k a) = Some (dict_set D k v)"
proof (induction d arbitrary: D)
  case Nil
  then show ?case by simp
next
  case (Cons x d)
  obtain k' a' where x: "x = (k', a')" by (cases x)
  from Cons.prems(1) obtain v' vs where v: "abs_app h a' = Some v'" and vs: "abs_apps h d = Some vs"
    and D: "D = (k', v') # vs"
    unfolding x by (auto split: option.splits)
  show ?case unfolding x D
    using Cons.IH [OF vs Cons.prems(2)] v vs Cons.prems(2) by simp
qed

lemma AppConfig_merged_h_abs:
  assumes "abs_app h s = Some S" and "abs_app h g = Some G"
  shows "\<exists>ext. AppConfig_merged_h s g h = Inr (Suc (length h), h @ ext) \<and>
               abs_app (h @ ext) (Suc (length h)) = Some (AppConfig_merged S G)"
proof -
  from assms(1) obtain sp where s: "get_app h s = Inr (base S, install S, sp)"
    "get_paths h sp = Inr (paths S)"
    by (auto dest: abs_app_D)
  from assms(2) obtain gp where g: "get_app h g = Inr (base G, install G, gp)"
    "get_paths h gp = Inr (paths G)"
    by (auto dest: abs_app_D)
  let ?mp = "dict_update (paths S) (paths G)"
  let ?b = "if base G \<noteq> None then base G else base S"
  let ?i = "InstallOverride_merged (install S) (install G)"
  let ?ext = "[PathsDict ?mp, AppObj ?b ?i (Suc (Suc (length h))),
               PathsDict (normalize_paths [] ?mp), PathsDict ?mp]"
  have e: "AppConfig_merged_h s g h = Inr (Suc (length h), h @ ?ext)"
    by (rule AppConfig_merged_h_eq [OF s g])
  have "get_app (h @ ?ext) (Suc (length h)) = Inr (?b, ?i, Suc (Suc (length h)))"
    by (simp add: get_app_def nth_append)
  moreover have "get_paths (h @ ?ext) (Suc (Suc (length h))) = Inr (normalize_paths [] ?mp)"
    by (simp add: get_paths_def nth_append)
  ultimately have "abs_app (h @ ?ext) (Suc (length h)) =
      Some \<lparr>base = ?b, install = ?i, paths = normalize_paths [] ?mp\<rparr>"
    by (rule abs_app_I)
  then have "abs_app (h @ ?ext) (Suc (length h)) = Some (AppConfig_merged S G)"
    by (simp add: AppConfig_merged_def AppConfig_init_def Let_def)
  with e show ?thesis by blast
qed

subsection \<open>The loop of the merge\<close>

lemma merge_apps_h_spec:
  "get_apps h m = Inr d \<Longrightarrow> abs_apps h d = Some D \<Longrightarrow> abs_apps h items = Some I \<Longrightarrow>
   \<exists>h' d'. merge_apps_h m items h = Inr h' \<and> length h \<le> length h' \<and>
           (\<forall>a. a < length h \<and> a \<noteq> m \<longrightarrow> h' ! a = h ! a) \<and>
           get_apps h' m = Inr d' \<and> abs_apps h' d' = Some (merge_apps D I)"
proof (induction items arbitrary: h d D I)
  case Nil
  then show ?case by auto
next
  case (Cons x items)
  obtain k a where x: "x = (k, a)" by (cases x)
  from Cons.prems(3) obtain v vs where v: "abs_app h a = Some v"
    and vs: "abs_apps h items = Some vs" and I: "I = (k, v) # vs"
    unfolding x by (auto split: option.splits)
  from Cons.prems(1) have m: "m < length h" by (auto dest: get_apps_D)
  show ?case
  proof (cases "dict_get d k")
    case None
    let ?d1 = "dict_set d k a"
    let ?h1 = "h[m := AppsDict ?d1]"
    have g1: "get_apps ?h1 m = Inr ?d1"
      using m by (simp add: get_apps_def)
    have "abs_apps h ?d1 = Some (dict_set D k v)"
      by (rule abs_apps_dict_set [OF Cons.prems(2) v])
    then have a1: "abs_apps ?h1 ?d1 = Some (dict_set D k v)"
      by (rule abs_apps_update_apps [OF _ Cons.prems(1)])
    have i1: "abs_apps ?h1 items = Some vs"
      by (rule abs_apps_update_apps [OF vs Cons.prems(1)])
    from Cons.IH [OF g1 a1 i1] obtain h' d' where r: "merge_apps_h m items ?h1 = Inr h'"
      "length ?h1 \<le> length h'" "\<forall>a. a < length ?h1 \<and> a \<noteq> m \<longrightarrow> h' ! a = ?h1 ! a"
      "get_apps h' m = Inr d'" "abs_apps h' d' = Some (merge_apps (dict_set D k v) vs)"
      by blast
    have DN: "dict_get D k = None"
      by (rule abs_apps_lookup_None [OF Cons.prems(2) None])
    have "merge_apps_h m (x # items) h = Inr h'"
      unfolding x using Cons.prems(1) None r(1) by simp
    moreover have "length h \<le> length h'" using r(2) by simp
    moreover have "\<forall>a. a < length h \<and> a \<noteq> m \<longrightarrow> h' ! a = h ! a"
      using r(3) by simp
    moreover have "abs_apps h' d' = Some (merge_apps D I)"
      using r(5) DN unfolding I by simp
    ultimately show ?thesis using r(4) by blast
  next
    case (Some la)
    from abs_apps_lookup_Some [OF Cons.prems(2) Some] obtain lv
      where lv: "abs_app h la = Some lv" and DS: "dict_get D k = Some lv"
      by blast
    from AppConfig_merged_h_abs [OF lv v] obtain ext
      where e: "AppConfig_merged_h la a h = Inr (Suc (length h), h @ ext)"
        and ae: "abs_app (h @ ext) (Suc (length h)) = Some (AppConfig_merged lv v)"
      by blast
    let ?r = "Suc (length h)"
    let ?h1 = "h @ ext"
    let ?d1 = "dict_set d k ?r"
    let ?h2 = "?h1[m := AppsDict ?d1]"
    have g0: "get_apps ?h1 m = Inr d"
      by (rule get_apps_append [OF Cons.prems(1)])
    have m1: "m < length ?h1" using m by simp
    have g1: "get_apps ?h2 m = Inr ?d1"
      using m1 by (simp add: get_apps_def del: length_append)
    have "abs_apps ?h1 d = Some D"
      by (rule abs_apps_append [OF Cons.prems(2)])
    then have "abs_apps ?h1 ?d1 = Some (dict_set D k (AppConfig_merged lv v))"
      by (rule abs_apps_dict_set [OF _ ae])
    then have a1: "abs_apps ?h2 ?d1 = Some (dict_set D k (AppConfig_merged lv v))"
      by (rule abs_apps_update_apps [OF _ g0])
    have "abs_apps ?h1 items = Some vs"
      by (rule abs_apps_append [OF vs])
    then have i1: "abs_apps ?h2 items = Some vs"
      by (rule abs_apps_update_apps [OF _ g0])
    from Cons.IH [OF g1 a1 i1] obtain h' d' where r: "merge_apps_h m items ?h2 = Inr h'"
      "length ?h2 \<le> length h'" "\<forall>a. a < length ?h2 \<and> a \<noteq> m \<longrightarrow> h' ! a = ?h2 ! a"
      "get_apps h' m = Inr d'"
      "abs_apps h' d' = Some (merge_apps (dict_set D k (AppConfig_merged lv v)) vs)"
      by blast
    have "merge_apps_h m (x # items) h = Inr h'"
      unfolding x using Cons.prems(1) Some e g0 r(1) by simp
    moreover have "length h \<le> length h'" using r(2) by simp
    moreover have "\<forall>a. a < length h \<and> a \<noteq> m \<longrightarrow> h' ! a = h ! a"
      using r(3) by (simp add: nth_append)
    moreover have "abs_apps h' d' = Some (merge_apps D I)"
      using r(5) DS unfolding I by simp
    ultimately show ?thesis using r(4) by blast
  qed
qed

subsection \<open>The merge leaves the heap it found\<close>

lemma VFXDirsConfig_new_eq:
  assumes "get_apps h a = Inr items" and "distinct (keys items)"
    and "list_all (\<lambda>k. normalize_app_id k = Inr k) (keys items)"
  shows "VFXDirsConfig_new a h =
         Inr (length h, h @ [CfgObj (Suc (length h)), AppsDict items, AppsDict items])"
proof -
  let ?h3 = "h @ [CfgObj a, AppsDict [], AppsDict items]"
  have g: "get_apps ?h3 (Suc (length h)) = Inr []"
    by (simp add: get_apps_def nth_append)
  have "normalize_apps_h (Suc (length h)) items ?h3 =
        Inr (?h3[Suc (length h) := AppsDict (dict_update [] items)])"
    by (rule normalize_apps_h_eq [OF g assms(3)])
  then show ?thesis
    using assms(1,2) by (simp add: VFXDirsConfig_new_def alloc_def list_update_append dict_update_Nil)
qed

lemma abs_cfg_D:
  "abs_cfg h c = Some C \<Longrightarrow>
   \<exists>a items. get_cfg h c = Inr a \<and> get_apps h a = Inr items \<and> abs_apps h items = Some (apps C)"
  by (auto simp: abs_cfg_def split: sum.splits option.splits)

lemma abs_cfg_I:
  "get_cfg h c = Inr a \<Longrightarrow> get_apps h a = Inr items \<Longrightarrow> abs_apps h items = Some D \<Longrightarrow>
   abs_cfg h c = Some \<lparr>apps = D\<rparr>"
  by (simp add: abs_cfg_def)

lemma abs_cfg_append: "abs_cfg h c = Some C \<Longrightarrow> abs_cfg (h @ e) c = Some C"
proof -
  assume "abs_cfg h c = Some C"
  then obtain a items where "get_cfg h c = Inr a" "get_apps h a = Inr items"
    "abs_apps h items = Some (apps C)"
    by (auto dest: abs_cfg_D)
  then have "abs_cfg (h @ e) c = Some \<lparr>apps = apps C\<rparr>"
    by (intro abs_cfg_I get_cfg_append get_apps_append abs_apps_append)
  then show ?thesis by simp
qed

text \<open>
  C9. Merging two configuration trees on the heap returns, and leaves every object that
  was there as it was: the heap after the merge is the heap before it with new cells at
  the end, so both inputs, their \<^verbatim>\<open>apps\<close> mappings and every \<^verbatim>\<open>paths\<close> mapping below them
  read as before. The result and its \<^verbatim>\<open>apps\<close> mapping are new cells, and the result reads
  as the merge of the two values.
\<close>

theorem VFXDirsConfig_merged_h_frame:
  assumes "abs_cfg h lo = Some L" and "abs_cfg h hi = Some H"
    and "inv_VFXDirsConfig L" and "inv_VFXDirsConfig H"
  shows "\<exists>r h'. VFXDirsConfig_merged_h lo (Some hi) h = Inr (r, h') \<and>
           take (length h) h' = h \<and>
           abs_cfg h' lo = Some L \<and> abs_cfg h' hi = Some H \<and>
           length h \<le> r \<and>
           (\<exists>a. get_cfg h' r = Inr a \<and> length h \<le> a) \<and>
           (\<exists>M. VFXDirsConfig_merged L (Some H) = Inr M \<and> abs_cfg h' r = Some M)"
proof -
  from assms(1) obtain sa sitems where s: "get_cfg h lo = Inr sa" "get_apps h sa = Inr sitems"
    "abs_apps h sitems = Some (apps L)"
    by (auto dest: abs_cfg_D)
  from assms(2) obtain ha hitems where g: "get_cfg h hi = Inr ha" "get_apps h ha = Inr hitems"
    "abs_apps h hitems = Some (apps H)"
    by (auto dest: abs_cfg_D)
  let ?m = "length h"
  let ?h1 = "h @ [AppsDict sitems]"
  let ?M = "merge_apps (apps L) (apps H)"
  have m1: "get_apps ?h1 ?m = Inr sitems"
    by (simp add: get_apps_def)
  have a1: "abs_apps ?h1 sitems = Some (apps L)" "abs_apps ?h1 hitems = Some (apps H)"
    using s(3) g(3) by (simp_all add: abs_apps_append)
  have g1: "get_cfg ?h1 hi = Inr ha" "get_apps ?h1 ha = Inr hitems"
    using g(1,2) by (simp_all add: get_cfg_append get_apps_append)
  from merge_apps_h_spec [OF m1 a1] obtain h2 d'
    where l: "merge_apps_h ?m hitems ?h1 = Inr h2" "length ?h1 \<le> length h2"
      "\<forall>a. a < length ?h1 \<and> a \<noteq> ?m \<longrightarrow> h2 ! a = ?h1 ! a"
      "get_apps h2 ?m = Inr d'" "abs_apps h2 d' = Some ?M"
    by blast
  have iM: "inv_VFXDirsConfig \<lparr>apps = ?M\<rparr>"
    by (rule inv_merge_apps [OF assms(3,4)])
  have k: "keys d' = keys ?M"
    using abs_apps_keys [OF l(5)] by simp
  have kd: "distinct (keys d')" "list_all (\<lambda>k. normalize_app_id k = Inr k) (keys d')"
    using iM unfolding k by (simp_all add: inv_VFXDirsConfig_def)
  let ?r = "length h2"
  let ?h3 = "h2 @ [CfgObj (Suc ?r), AppsDict d', AppsDict d']"
  have n: "VFXDirsConfig_new ?m h2 = Inr (?r, ?h3)"
    by (rule VFXDirsConfig_new_eq [OF l(4) kd])
  have run: "VFXDirsConfig_merged_h lo (Some hi) h = Inr (?r, ?h3)"
    using s(1,2) g1 l(1) n by (simp add: VFXDirsConfig_merged_h_def alloc_def)
  have len: "length h < length h2"
    using l(2) by simp
  have same: "take (length h) ?h3 = h"
  proof (rule nth_equalityI)
    show "length (take (length h) ?h3) = length h"
      using len by simp
  next
    fix i
    assume "i < length (take (length h) ?h3)"
    then have i: "i < length h" by simp
    then have "?h3 ! i = h2 ! i" using len by (simp add: nth_append)
    also have "\<dots> = ?h1 ! i" using l(3) i by simp
    also have "\<dots> = h ! i" using i by (simp add: nth_append)
    finally have "?h3 ! i = h ! i" .
    then show "take (length h) ?h3 ! i = h ! i" using i by (simp only: nth_take)
  qed
  have split: "?h3 = h @ drop (length h) ?h3"
    using same by (metis append_take_drop_id)
  have keep: "abs_cfg ?h3 lo = Some L" "abs_cfg ?h3 hi = Some H"
    using abs_cfg_append [OF assms(1), of "drop (length h) ?h3"]
      abs_cfg_append [OF assms(2), of "drop (length h) ?h3"] split
    by simp_all
  have c3: "get_cfg ?h3 ?r = Inr (Suc ?r)"
    by (simp add: get_cfg_def)
  have "get_apps ?h3 (Suc ?r) = Inr d'"
    by (simp add: get_apps_def nth_append)
  moreover have "abs_apps ?h3 d' = Some ?M"
    by (rule abs_apps_append [OF l(5)])
  ultimately have res: "abs_cfg ?h3 ?r = Some \<lparr>apps = ?M\<rparr>"
    by (rule abs_cfg_I [OF c3])
  have pure: "VFXDirsConfig_merged L (Some H) = Inr \<lparr>apps = ?M\<rparr>"
    by (rule VFXDirsConfig_merged_eq [OF assms(3,4)])
  have fresh: "length h \<le> ?r" "length h \<le> Suc ?r"
    using len by simp_all
  from run same keep fresh c3 res pure show ?thesis
    by blast
qed

lemma example_heap_reads:
  "abs_cfg example_heap 3 = Some example_heap_lower"
  "abs_cfg example_heap 7 = Some example_heap_higher"
  "inv_VFXDirsConfig example_heap_lower"
  "inv_VFXDirsConfig example_heap_higher"
  by code_simp+

theorem VFXDirsConfig_merged_h_frame_witness:
  "abs_cfg example_heap 3 = Some example_heap_lower \<and>
   abs_cfg example_heap 7 = Some example_heap_higher \<and>
   inv_VFXDirsConfig example_heap_lower \<and> inv_VFXDirsConfig example_heap_higher \<and>
   (\<exists>r h'. VFXDirsConfig_merged_h 3 (Some 7) example_heap = Inr (r, h') \<and>
      take (length example_heap) h' = example_heap \<and>
      abs_cfg h' 3 = Some example_heap_lower \<and> abs_cfg h' 7 = Some example_heap_higher \<and>
      length example_heap \<le> r \<and>
      (\<exists>a. get_cfg h' r = Inr a \<and> length example_heap \<le> a) \<and>
      (\<exists>M. VFXDirsConfig_merged example_heap_lower (Some example_heap_higher) = Inr M \<and>
           abs_cfg h' r = Some M))"
  using VFXDirsConfig_merged_h_frame [OF example_heap_reads] example_heap_reads
  by simp

end
